theory Spec2Isabelle
  imports Complex_Main
begin

section \<open>Python strings\<close>

text \<open>
  The keys of \<^verbatim>\<open>laf/names.py\<close> are Python strings, modelled as \<^typ>\<open>string\<close>.
  The string methods the module uses are written out here.

  \<^verbatim>\<open>s.split(c)\<close> with a one-character separator cuts at every occurrence of the
  separator and always returns at least one part (\<^verbatim>\<open>''.split(',') == ['']\<close>).
\<close>

primrec py_split :: "char \<Rightarrow> string \<Rightarrow> string list" where
  "py_split c [] = [[]]"
| "py_split c (x # xs) =
     (if x = c then [] # py_split c xs
      else (case py_split c xs of p # ps \<Rightarrow> (x # p) # ps | [] \<Rightarrow> [[x]]))"

text \<open>\<^verbatim>\<open>s.split(c, 1)\<close> cuts at the first occurrence only.\<close>

definition py_split1 :: "char \<Rightarrow> string \<Rightarrow> string list" where
  "py_split1 c s =
     (if c \<in> set s then [takeWhile (\<lambda>x. x \<noteq> c) s, tl (dropWhile (\<lambda>x. x \<noteq> c) s)]
      else [s])"

text \<open>\<^verbatim>\<open>s.rstrip(c)\<close> removes every trailing occurrence of the character.\<close>

definition py_rstrip :: "char \<Rightarrow> string \<Rightarrow> string" where
  "py_rstrip c s = rev (dropWhile (\<lambda>x. x = c) (rev s))"

text \<open>\<^verbatim>\<open>sep.join(parts)\<close> on a sequence of strings.\<close>

fun py_join :: "string \<Rightarrow> string list \<Rightarrow> string" where
  "py_join sep [] = []"
| "py_join sep [p] = p"
| "py_join sep (p # q # ps) = p @ sep @ py_join sep (q # ps)"

section \<open>Python values\<close>

text \<open>
  Requirement values and load specifications are dynamically typed. The values that
  can occur are modelled by one datatype: \<^verbatim>\<open>None\<close>, booleans, integers, strings,
  tuples, lists, and dictionaries with string keys (plain and
  \<^verbatim>\<open>collections.OrderedDict\<close>), both kept in insertion order. \<open>PNumber\<close> is a
  number of any other numeric type (\<^verbatim>\<open>float\<close>, \<^verbatim>\<open>complex\<close>,
  \<^verbatim>\<open>decimal.Decimal\<close>, \<^verbatim>\<open>fractions.Fraction\<close>), given by the name of its type
  and by its value; Python compares and hashes all numbers by value, whatever their
  type.
\<close>

datatype pyval =
    PNone
  | PBool bool
  | PInt int
  | PNumber string complex
  | PStr string
  | PTuple "pyval list"
  | PList "pyval list"
  | PDict "(string \<times> pyval) list"
  | POrderedDict "(string \<times> pyval) list"

text \<open>\<^verbatim>\<open>type(v).__name__\<close>, as the messages of the validator print it.\<close>

fun type_name :: "pyval \<Rightarrow> string" where
  "type_name PNone = ''NoneType''"
| "type_name (PBool _) = ''bool''"
| "type_name (PInt _) = ''int''"
| "type_name (PNumber n _) = n"
| "type_name (PStr _) = ''str''"
| "type_name (PTuple _) = ''tuple''"
| "type_name (PList _) = ''list''"
| "type_name (PDict _) = ''dict''"
| "type_name (POrderedDict _) = ''collections.OrderedDict''"

text \<open>
  Membership in a set hashes the value first: lists and dictionaries are unhashable
  (TypeError), a tuple is hashable when all its items are.
\<close>

fun hashable :: "pyval \<Rightarrow> bool" where
  "hashable PNone = True"
| "hashable (PBool _) = True"
| "hashable (PInt _) = True"
| "hashable (PNumber _ _) = True"
| "hashable (PStr _) = True"
| "hashable (PTuple xs) = list_all hashable xs"
| "hashable (PList _) = False"
| "hashable (PDict _) = False"
| "hashable (POrderedDict _) = False"

text \<open>
  \<^verbatim>\<open>v == True\<close> and \<^verbatim>\<open>v == False\<close>: Python's booleans are the integers 1 and 0,
  and numbers are compared by value, so every number with the value 1 equals
  \<^verbatim>\<open>True\<close> (the integer \<^verbatim>\<open>1\<close>, but also \<^verbatim>\<open>1.0\<close>, \<^verbatim>\<open>Decimal(1)\<close> or
  \<^verbatim>\<open>1+0j\<close>) and every number with the value 0 equals \<^verbatim>\<open>False\<close>; a value that is
  not a number equals no boolean.
\<close>

fun py_eq_bool :: "pyval \<Rightarrow> bool \<Rightarrow> bool" where
  "py_eq_bool (PBool a) b = (a = b)"
| "py_eq_bool (PInt i) b = (i = (if b then 1 else 0))"
| "py_eq_bool (PNumber n z) b = (z = (if b then 1 else 0))"
| "py_eq_bool _ b = False"

section \<open>Errors\<close>

text \<open>
  Every exception the module can raise is a value. \<open>FabricError\<close> carries the
  messages collected by \<^verbatim>\<open>check_load_dict\<close>, one \<open>violation\<close> for each call of
  \<^verbatim>\<open>errors.append\<close>; a violation records which of the seven message templates was
  used and the values formatted into it (the fixed vocabulary sets that the templates
  also print are left out). The other constructors are Python's built-in exceptions
  raised by indexing, dictionary lookup, iteration, hashing and tuple unpacking.
\<close>

datatype violation =
    TopLevelKey pyval
  | XmlidsSubkey pyval
  | XmlidsValue pyval pyval
  | PrimaryValue pyval
  | FeaturesSubkey pyval pyval
  | FeaturesValue pyval pyval string
  | PrepareValue string

datatype py_error = IndexError | KeyError | TypeError | ValueError | FabricError "violation list"

text \<open>
  Iteration \<^verbatim>\<open>for x in v\<close>: the items of a tuple or list, the one-character
  strings of a string, the keys of a dictionary; TypeError for \<^verbatim>\<open>None\<close>, booleans
  and integers.
\<close>

fun py_iter :: "pyval \<Rightarrow> py_error + pyval list" where
  "py_iter (PTuple xs) = Inr xs"
| "py_iter (PList xs) = Inr xs"
| "py_iter (PStr s) = Inr (map (\<lambda>c. PStr [c]) s)"
| "py_iter (PDict kvs) = Inr (map (\<lambda>kv. PStr (fst kv)) kvs)"
| "py_iter (POrderedDict kvs) = Inr (map (\<lambda>kv. PStr (fst kv)) kvs)"
| "py_iter _ = Inl TypeError"

text \<open>
  Subscription \<^verbatim>\<open>v[k]\<close>. A dictionary hashes the key (TypeError when unhashable)
  and raises KeyError when it is missing. A tuple, list or string takes an integer
  index (a boolean counts as 0 or 1), negative indices count from the end, IndexError
  out of range, TypeError for any other index. \<^verbatim>\<open>None\<close>, booleans and integers
  are not subscriptable.
\<close>

definition seq_index :: "'a list \<Rightarrow> int \<Rightarrow> py_error + 'a" where
  "seq_index xs i =
     (if 0 \<le> i \<and> i < int (length xs) then Inr (xs ! nat i)
      else if i < 0 \<and> - int (length xs) \<le> i then Inr (xs ! nat (int (length xs) + i))
      else Inl IndexError)"

fun as_index :: "pyval \<Rightarrow> int option" where
  "as_index (PInt i) = Some i"
| "as_index (PBool b) = Some (if b then 1 else 0)"
| "as_index _ = None"

definition dict_get :: "(string \<times> pyval) list \<Rightarrow> pyval \<Rightarrow> py_error + pyval" where
  "dict_get kvs k =
     (if \<not> hashable k then Inl TypeError
      else case k of
        PStr s \<Rightarrow> (case map_of kvs s of None \<Rightarrow> Inl KeyError | Some v \<Rightarrow> Inr v)
      | _ \<Rightarrow> Inl KeyError)"

fun py_getitem :: "pyval \<Rightarrow> pyval \<Rightarrow> py_error + pyval" where
  "py_getitem (PDict kvs) k = dict_get kvs k"
| "py_getitem (POrderedDict kvs) k = dict_get kvs k"
| "py_getitem (PTuple xs) k =
     (case as_index k of None \<Rightarrow> Inl TypeError | Some i \<Rightarrow> seq_index xs i)"
| "py_getitem (PList xs) k =
     (case as_index k of None \<Rightarrow> Inl TypeError | Some i \<Rightarrow> seq_index xs i)"
| "py_getitem (PStr s) k =
     (case as_index k of None \<Rightarrow> Inl TypeError
      | Some i \<Rightarrow> (case seq_index s i of Inl e \<Rightarrow> Inl e | Inr c \<Rightarrow> Inr (PStr [c])))"
| "py_getitem _ k = Inl TypeError"

text \<open>
  \<^verbatim>\<open>','.join(v)\<close> iterates its argument and raises TypeError at an item that is
  not a string. \<open>py_str_items\<close> is that part of \<^verbatim>\<open>join\<close>: the items as strings.
\<close>

fun the_strs :: "pyval list \<Rightarrow> py_error + string list" where
  "the_strs [] = Inr []"
| "the_strs (PStr s # vs) = (case the_strs vs of Inl e \<Rightarrow> Inl e | Inr ss \<Rightarrow> Inr (s # ss))"
| "the_strs (_ # vs) = Inl TypeError"

definition py_str_items :: "pyval \<Rightarrow> py_error + string list" where
  "py_str_items v = (case py_iter v of Inl e \<Rightarrow> Inl e | Inr xs \<Rightarrow> the_strs xs)"

section \<open>Key codec\<close>

text \<open>
  \<^verbatim>\<open>
  DCOMP_SEP = ','
  def comp(dkeymin, dcomps): return '{}({})'.format(dkeymin, Names.DCOMP_SEP.join(dcomps))
  def comp_file(dgroup, dkind, ddir, dcomps):
      return'{}{}{}({})'.format(dgroup, dkind, ddir, Names.DCOMP_SEP.join(dcomps))
  def decomp(dkey):
      parts = dkey.split('(', 1)
      return (parts[0], '({}'.format(parts[1])) if len(parts) == 2 else (dkey, '')
  def decomp_full(dkey):
      parts = dkey.split('(')
      return tuple(parts[0]) + (tuple(parts[1].rstrip(')').split(Names.DCOMP_SEP)),)
  \<close>
  The tuple that \<^verbatim>\<open>decomp_full\<close> returns consists of the characters of
  \<^verbatim>\<open>parts[0]\<close>, one field each, followed by one last field, the tuple of
  components. The model returns the pair of the two: the string \<^verbatim>\<open>parts[0]\<close>
  (its characters are the leading fields) and the component list. \<^verbatim>\<open>parts[1]\<close>
  raises IndexError when the key holds no opening parenthesis. The source's
  \<^verbatim>\<open>comp\<close> is \<open>comp_key\<close> here, since \<open>comp\<close> is the composition of
  functions in HOL.
\<close>

definition DCOMP_SEP :: char where
  "DCOMP_SEP = CHR '',''"

definition comp_key :: "string \<Rightarrow> string list \<Rightarrow> string" where
  "comp_key dkeymin dcomps = dkeymin @ ''('' @ py_join [DCOMP_SEP] dcomps @ '')''"

definition comp_file :: "char \<Rightarrow> char \<Rightarrow> char \<Rightarrow> string list \<Rightarrow> string" where
  "comp_file dgroup dkind ddir dcomps =
     [dgroup, dkind, ddir] @ ''('' @ py_join [DCOMP_SEP] dcomps @ '')''"

definition decomp :: "string \<Rightarrow> string \<times> string" where
  "decomp dkey =
     (case py_split1 (CHR ''('') dkey of
        [p0, p1] \<Rightarrow> (p0, ''('' @ p1)
      | _ \<Rightarrow> (dkey, ''''))"

definition decomp_full :: "string \<Rightarrow> py_error + string \<times> string list" where
  "decomp_full dkey =
     (case py_split (CHR ''('') dkey of
        p0 # p1 # _ \<Rightarrow> Inr (p0, py_split DCOMP_SEP (py_rstrip (CHR '')'') p1))
      | _ \<Rightarrow> Inl IndexError)"

text \<open>
  The callers unpack the result into five names,
  \<^verbatim>\<open>(dorigin, dgroup, dkind, ddir, dcomps) = Names.decomp_full(dkey)\<close>,
  which raises ValueError unless the tuple has exactly five fields, that is, unless
  \<^verbatim>\<open>parts[0]\<close> has exactly four characters.
\<close>

definition unpack5 ::
  "string \<times> string list \<Rightarrow> py_error + char \<times> char \<times> char \<times> char \<times> string list" where
  "unpack5 t =
     (case fst t of
        [dorigin, dgroup, dkind, ddir] \<Rightarrow> Inr (dorigin, dgroup, dkind, ddir, snd t)
      | _ \<Rightarrow> Inl ValueError)"

section \<open>Ordered dictionaries\<close>

text \<open>
  A \<^verbatim>\<open>collections.OrderedDict\<close> is an association list in insertion order.
  \<^verbatim>\<open>d[k] = v\<close> replaces the value of a key that is present, in place, and appends a
  new key at the end; \<^verbatim>\<open>k in d\<close> and \<^verbatim>\<open>d[k]\<close> are \<open>map_of\<close>; iterating
  \<^verbatim>\<open>for k in d\<close> runs through \<open>map fst d\<close>.
\<close>

primrec od_set :: "('k \<times> 'v) list \<Rightarrow> 'k \<Rightarrow> 'v \<Rightarrow> ('k \<times> 'v) list" where
  "od_set [] k v = [(k, v)]"
| "od_set (p # ps) k v = (if fst p = k then (k, v) # ps else p # od_set ps k v)"

text \<open>
  A dictionary \<open>d'\<close> extends a dictionary \<open>d\<close> by a list of keys when it has the
  keys of \<open>d\<close> and the keys of the list and no others and, provided no key occurs
  twice, has them in this order. (The proofs about the resolver use it.)
\<close>

definition extends_by :: "('k \<times> 'v) list \<Rightarrow> ('k \<times> 'v) list \<Rightarrow> 'k list \<Rightarrow> bool" where
  "extends_by d d' ks =
     (set (map fst d') = set (map fst d) \<union> set ks
      \<and> (distinct (map fst d @ ks) \<longrightarrow> map fst d' = map fst d @ ks))"

section \<open>Item catalog\<close>

text \<open>
  The template table \<^verbatim>\<open>Names._data_items_tpl\<close>: raw key, default requirement
  (\<^verbatim>\<open>False\<close>, \<^verbatim>\<open>True\<close>, \<^verbatim>\<open>[]\<close> or \<^verbatim>\<open>None\<close>) and value type.
\<close>

definition data_items_tpl :: "(string \<times> pyval \<times> string) list" where
  "data_items_tpl =
    [(''mP00 node_anchor'',       (PBool False, ''arr'')),
     (''mP00 node_anchor_items'', (PBool False, ''arr'')),
     (''mG00 node_anchor_min'',   (PBool True,  ''arr'')),
     (''mG00 node_anchor_max'',   (PBool True,  ''arr'')),
     (''mP00 node_events'',       (PBool False, ''arr'')),
     (''mP00 node_events_items'', (PBool False, ''arr'')),
     (''mP00 node_events_k'',     (PBool False, ''arr'')),
     (''mP00 node_events_n'',     (PBool False, ''arr'')),
     (''mG00 node_sort'',         (PBool True,  ''arr'')),
     (''mG00 node_sort_inv'',     (PBool True,  ''dct'')),
     (''mG00 edges_from'',        (PBool True,  ''arr'')),
     (''mG00 edges_to'',          (PBool True,  ''arr'')),
     (''mP00 primary_data'',      (PBool False, ''str'')),
     (''mXnf'',                   (PList [],    ''dct'')),
     (''mXef'',                   (PList [],    ''dct'')),
     (''mXnb'',                   (PList [],    ''dct'')),
     (''mXeb'',                   (PList [],    ''dct'')),
     (''mFn0'',                   (PList [],    ''dct'')),
     (''mFe0'',                   (PList [],    ''dct'')),
     (''mC0f'',                   (PList [],    ''dct'')),
     (''mC0b'',                   (PList [],    ''dct'')),
     (''aFn0'',                   (PList [],    ''dct'')),
     (''aFe0'',                   (PList [],    ''dct'')),
     (''aC0f'',                   (PList [],    ''dct'')),
     (''aC0b'',                   (PList [],    ''dct'')),
     (''zG00 node_sort'',         (PNone,       ''arr'')),
     (''zG00 node_sort_inv'',     (PNone,       ''dct''))]"

text \<open>
  \<^verbatim>\<open>
  for ((dkey_raw, dbits)) in Names._data_items_tpl:
      parts = dkey_raw.split(' ')
      dkey = '{}({})'.format(parts[0], Names.DCOMP_SEP.join(parts[1:])) if len(parts) > 1 else dkey_raw
      Names._data_items_def[dkey] = dbits
  \<close>
\<close>

definition catalog_key :: "string \<Rightarrow> string" where
  "catalog_key dkey_raw =
     (let parts = py_split (CHR '' '') dkey_raw
      in if length parts > 1
         then hd parts @ ''('' @ py_join [DCOMP_SEP] (tl parts) @ '')''
         else dkey_raw)"

definition build_data_items_def ::
  "(string \<times> pyval \<times> string) list \<Rightarrow> (string \<times> pyval \<times> string) list" where
  "build_data_items_def tpl = foldl (\<lambda>d (dkey_raw, dbits). od_set d (catalog_key dkey_raw) dbits) [] tpl"

section \<open>The engine state\<close>

text \<open>
  A \<^verbatim>\<open>Names\<close> object: the catalog \<^verbatim>\<open>_data_items_def\<close> (a class attribute filled
  by \<^verbatim>\<open>__init__\<close>), the current and the previous resolution, and the settings
  \<^verbatim>\<open>env\<close> inherited from \<^verbatim>\<open>Settings\<close>, whose code is not part of the module:
  the environment is a parameter, a dictionary from setting names to directory names.

  A resolved item is the five-tuple that \<^verbatim>\<open>dinfo\<close> returns; each field is either
  a value or \<^verbatim>\<open>None\<close>.
\<close>

type_synonym resolved = "bool option \<times> string option \<times> string option \<times> string option \<times> bool option"

record names =
  data_items_def :: "(string \<times> pyval \<times> string) list"
  req_data_items :: "(string \<times> resolved) list"
  old_data_items :: "(string \<times> resolved) list"
  env :: "string \<rightharpoonup> string"

definition names_init :: "(string \<rightharpoonup> string) \<Rightarrow> names" where
  "names_init e =
     \<lparr>data_items_def = build_data_items_def data_items_tpl,
      req_data_items = [],
      old_data_items = [],
      env = e\<rparr>"

section \<open>Resolving one key\<close>

text \<open>
  \<^verbatim>\<open>
  def dinfo(self, dkey):
      if dkey in Names._data_items_def: (docc_def, dtype) = Names._data_items_def[dkey]
      else:
          dkeymin = Names.decomp(dkey)[0]
          (docc_def, dtype) = Names._data_items_def[dkeymin]
      (dorigin, dgroup, dkind, ddir, dcomps) = Names.decomp_full(dkey)
      if dgroup == 'T': return (None, None, None, None, None)
      dloc = self.env['{}_compiled_dir'.format(dorigin)]
      dfile = Names.comp_file(dgroup, dkind, ddir, dcomps)
      return (dgroup not in 'FC', dloc, dfile, dtype, dorigin == 'z')
  \<close>
  \<^verbatim>\<open>dgroup\<close> is a one-character string, so the substring test
  \<^verbatim>\<open>dgroup not in 'FC'\<close> says that the character is neither F nor C.
\<close>

definition dinfo :: "names \<Rightarrow> string \<Rightarrow> py_error + resolved" where
  "dinfo self dkey =
     (case (case map_of (data_items_def self) dkey of
              Some dbits \<Rightarrow> Some dbits
            | None \<Rightarrow> map_of (data_items_def self) (fst (decomp dkey))) of
        None \<Rightarrow> Inl KeyError
      | Some (docc_def, dtype) \<Rightarrow>
          (case decomp_full dkey of
             Inl e \<Rightarrow> Inl e
           | Inr t \<Rightarrow>
               (case unpack5 t of
                  Inl e \<Rightarrow> Inl e
                | Inr (dorigin, dgroup, dkind, ddir, dcomps) \<Rightarrow>
                    if dgroup = CHR ''T'' then Inr (None, None, None, None, None)
                    else (case env self ([dorigin] @ ''_compiled_dir'') of
                            None \<Rightarrow> Inl KeyError
                          | Some dloc \<Rightarrow>
                              Inr (Some (dgroup \<notin> set ''FC''),
                                   Some dloc,
                                   Some (comp_file dgroup dkind ddir dcomps),
                                   Some dtype,
                                   Some (dorigin = CHR ''z''))))))"

section \<open>Resolving a request and planning the difference\<close>

text \<open>
  The body of the inner loop of \<^verbatim>\<open>request_files\<close>:
  \<^verbatim>\<open>
  for dcomps in req_items[docc]:
      dkeyfull = Names.comp(dkey, dcomps)
      self.req_data_items[dkeyfull] = self.dinfo(dkeyfull)
  \<close>
  The third argument is the dictionary \<^verbatim>\<open>self.req_data_items\<close> under construction.
\<close>

fun request_comps ::
  "names \<Rightarrow> string \<Rightarrow> (string \<times> resolved) list \<Rightarrow> pyval list \<Rightarrow> py_error + (string \<times> resolved) list" where
  "request_comps self dkey items [] = Inr items"
| "request_comps self dkey items (dcomps # rest) =
     (case py_str_items dcomps of
        Inl e \<Rightarrow> Inl e
      | Inr cs \<Rightarrow>
          (let dkeyfull = comp_key dkey cs
           in case dinfo self dkeyfull of
                Inl e \<Rightarrow> Inl e
              | Inr r \<Rightarrow> request_comps self dkey (od_set items dkeyfull r) rest))"

text \<open>
  The body of the outer loop, for one catalog key:
  \<^verbatim>\<open>
  docc = Names.decomp(dkey)[0]
  if docc not in req_items: continue
  if req_items[docc] == True:
      self.req_data_items[dkey] = self.dinfo(dkey)
  elif req_items[docc] == False or req_items[docc] == None: continue
  else:
      for dcomps in req_items[docc]: ...
  \<close>
  The requirement mapping \<^verbatim>\<open>req_items\<close> is only looked up, so a map suffices.
\<close>

definition request_entry ::
  "names \<Rightarrow> (string \<rightharpoonup> pyval) \<Rightarrow> (string \<times> resolved) list \<Rightarrow> string \<Rightarrow> py_error + (string \<times> resolved) list" where
  "request_entry self req_items items dkey =
     (let docc = fst (decomp dkey)
      in case req_items docc of
           None \<Rightarrow> Inr items
         | Some r \<Rightarrow>
             if py_eq_bool r True then
               (case dinfo self dkey of Inl e \<Rightarrow> Inl e | Inr v \<Rightarrow> Inr (od_set items dkey v))
             else if py_eq_bool r False \<or> r = PNone then Inr items
             else (case py_iter r of
                     Inl e \<Rightarrow> Inl e
                   | Inr elems \<Rightarrow> request_comps self dkey items elems))"

text \<open>The outer loop \<^verbatim>\<open>for dkey in Names._data_items_def\<close>.\<close>

fun request_loop ::
  "names \<Rightarrow> (string \<rightharpoonup> pyval) \<Rightarrow> (string \<times> resolved) list \<Rightarrow> string list \<Rightarrow> py_error + (string \<times> resolved) list" where
  "request_loop self req_items items [] = Inr items"
| "request_loop self req_items items (dkey # rest) =
     (case request_entry self req_items items dkey of
        Inl e \<Rightarrow> Inl e
      | Inr items' \<Rightarrow> request_loop self req_items items' rest)"

text \<open>
  The second half of \<^verbatim>\<open>request_files\<close>, the three lists:
  \<^verbatim>\<open>
  for dkey in old_data_items:
      if dkey not in new_data_items or new_data_items[dkey] != old_data_items[dkey]: dkeys['clear'].append(dkey)
  for dkey in new_data_items:
      if dkey in old_data_items and new_data_items[dkey] == old_data_items[dkey]: dkeys['keep'].append(dkey)
      else:
          if not new_data_items[dkey][-1]: dkeys['load'].append(dkey)
  \<close>
  Each loop appends the keys that pass its test, in iteration order: a \<open>filter\<close>.
  \<^verbatim>\<open>not t[-1]\<close> is true when the last field is \<^verbatim>\<open>False\<close> or \<^verbatim>\<open>None\<close>.
\<close>

record dkeys =
  clear :: "string list"
  keep :: "string list"
  load :: "string list"

definition not_last :: "resolved \<Rightarrow> bool" where
  "not_last t = (case snd (snd (snd (snd t))) of None \<Rightarrow> True | Some b \<Rightarrow> \<not> b)"

definition same_item :: "(string \<times> resolved) list \<Rightarrow> (string \<times> resolved) list \<Rightarrow> string \<Rightarrow> bool" where
  "same_item old_items new_items dkey =
     (map_of old_items dkey \<noteq> None \<and> map_of new_items dkey = map_of old_items dkey)"

definition plan :: "(string \<times> resolved) list \<Rightarrow> (string \<times> resolved) list \<Rightarrow> dkeys" where
  "plan old_items new_items =
     \<lparr>clear = filter (\<lambda>dkey. map_of new_items dkey = None
                            \<or> map_of new_items dkey \<noteq> map_of old_items dkey) (map fst old_items),
      keep = filter (\<lambda>dkey. same_item old_items new_items dkey) (map fst new_items),
      load = filter (\<lambda>dkey. \<not> same_item old_items new_items dkey
                            \<and> (case map_of new_items dkey of None \<Rightarrow> False | Some t \<Rightarrow> not_last t))
               (map fst new_items)\<rparr>"

text \<open>
  \<^verbatim>\<open>request_files\<close>: the current resolution becomes the previous one, the new one is
  built from the empty dictionary, and the plan is returned. A raise inside the loop
  leaves the function without a plan: the result is then the error alone.
\<close>

definition request_files :: "names \<Rightarrow> (string \<rightharpoonup> pyval) \<Rightarrow> py_error + names \<times> dkeys" where
  "request_files self req_items =
     (case request_loop self req_items [] (map fst (data_items_def self)) of
        Inl e \<Rightarrow> Inl e
      | Inr new_items \<Rightarrow>
          Inr (self\<lparr>old_data_items := req_data_items self, req_data_items := new_items\<rparr>,
               plan (req_data_items self) new_items))"

section \<open>Validating a load specification\<close>

text \<open>
  \<^verbatim>\<open>
  load_dict_keys = {'features', 'xmlids', 'primary', 'prepare'}
  load_dict_subkeys = {'node', 'edge'}
  kind_types = {False, True}
  \<close>
  \<^verbatim>\<open>x not in S\<close> hashes \<open>x\<close> (TypeError when unhashable) and then compares with
  \<^verbatim>\<open>==\<close>.
\<close>

definition load_dict_keys :: "string set" where
  "load_dict_keys = {''features'', ''xmlids'', ''primary'', ''prepare''}"

definition load_dict_subkeys :: "string set" where
  "load_dict_subkeys = {''node'', ''edge''}"

definition in_strs :: "pyval \<Rightarrow> string set \<Rightarrow> py_error + bool" where
  "in_strs v S =
     (if \<not> hashable v then Inl TypeError
      else Inr (case v of PStr s \<Rightarrow> s \<in> S | _ \<Rightarrow> False))"

definition in_kind_types :: "pyval \<Rightarrow> py_error + bool" where
  "in_kind_types v =
     (if \<not> hashable v then Inl TypeError
      else Inr (py_eq_bool v False \<or> py_eq_bool v True))"

text \<open>
  The loop over the subkeys of \<^verbatim>\<open>xmlids\<close>; \<open>d\<close> is \<^verbatim>\<open>load_dict[key]\<close>:
  \<^verbatim>\<open>
  for subkey in load_dict[key]:
      if subkey not in Names.load_dict_subkeys:
          errors.append('under {} only these keys are allowed: {}, not {}'.format(...))
      else:
          val = load_dict[key][subkey]
          if val not in {False, True}:
              errors.append('under {} and then {} only these values are allowed: {}, not {}'.format(...))
  \<close>
\<close>

fun check_xmlids :: "pyval \<Rightarrow> violation list \<Rightarrow> pyval list \<Rightarrow> py_error + violation list" where
  "check_xmlids d errors [] = Inr errors"
| "check_xmlids d errors (subkey # rest) =
     (case in_strs subkey load_dict_subkeys of
        Inl e \<Rightarrow> Inl e
      | Inr False \<Rightarrow> check_xmlids d (errors @ [XmlidsSubkey subkey]) rest
      | Inr True \<Rightarrow>
          (case py_getitem d subkey of
             Inl e \<Rightarrow> Inl e
           | Inr val \<Rightarrow>
               (case in_kind_types val of
                  Inl e \<Rightarrow> Inl e
                | Inr False \<Rightarrow> check_xmlids d (errors @ [XmlidsValue subkey val]) rest
                | Inr True \<Rightarrow> check_xmlids d errors rest)))"

text \<open>
  The two loops of \<^verbatim>\<open>features\<close>; \<open>d\<close> is \<^verbatim>\<open>load_dict[key]\<close> and \<open>nsd\<close> is
  \<^verbatim>\<open>load_dict[key][namespace]\<close>:
  \<^verbatim>\<open>
  for namespace in load_dict[key]:
      for subkey in load_dict[key][namespace]:
          if subkey not in Names.load_dict_subkeys:
              errors.append('under {} and then {} only these keys are allowed: {}, not {}'.format(...))
          else:
              val = load_dict[key][namespace][subkey]
              if type(val) != list:
                  errors.append('under {} and then {} and then {} the value should be a list, not {}'.format(...))
  \<close>
\<close>

fun check_namespace ::
  "pyval \<Rightarrow> pyval \<Rightarrow> violation list \<Rightarrow> pyval list \<Rightarrow> py_error + violation list" where
  "check_namespace nsd namespace errors [] = Inr errors"
| "check_namespace nsd namespace errors (subkey # rest) =
     (case in_strs subkey load_dict_subkeys of
        Inl e \<Rightarrow> Inl e
      | Inr False \<Rightarrow> check_namespace nsd namespace (errors @ [FeaturesSubkey namespace subkey]) rest
      | Inr True \<Rightarrow>
          (case py_getitem nsd subkey of
             Inl e \<Rightarrow> Inl e
           | Inr val \<Rightarrow>
               if type_name val \<noteq> ''list''
               then check_namespace nsd namespace
                      (errors @ [FeaturesValue namespace subkey (type_name val)]) rest
               else check_namespace nsd namespace errors rest))"

fun check_features :: "pyval \<Rightarrow> violation list \<Rightarrow> pyval list \<Rightarrow> py_error + violation list" where
  "check_features d errors [] = Inr errors"
| "check_features d errors (namespace # rest) =
     (case py_getitem d namespace of
        Inl e \<Rightarrow> Inl e
      | Inr nsd \<Rightarrow>
          (case py_iter nsd of
             Inl e \<Rightarrow> Inl e
           | Inr subkeys \<Rightarrow>
               (case check_namespace nsd namespace errors subkeys of
                  Inl e \<Rightarrow> Inl e
                | Inr errors' \<Rightarrow> check_features d errors' rest)))"

text \<open>
  The outer loop \<^verbatim>\<open>for key in load_dict\<close> with its chain of \<^verbatim>\<open>if\<close>/\<^verbatim>\<open>elif\<close>
  branches.
\<close>

fun check_keys :: "pyval \<Rightarrow> violation list \<Rightarrow> pyval list \<Rightarrow> py_error + violation list" where
  "check_keys load_dict errors [] = Inr errors"
| "check_keys load_dict errors (key # rest) =
     (case in_strs key load_dict_keys of
        Inl e \<Rightarrow> Inl e
      | Inr False \<Rightarrow>
          check_keys load_dict (errors @ [TopLevelKey key]) rest
      | Inr True \<Rightarrow>
          (case py_getitem load_dict key of
             Inl e \<Rightarrow> Inl e
           | Inr val \<Rightarrow>
               if key = PStr ''xmlids'' then
                 (case py_iter val of
                    Inl e \<Rightarrow> Inl e
                  | Inr subkeys \<Rightarrow>
                      (case check_xmlids val errors subkeys of
                         Inl e \<Rightarrow> Inl e
                       | Inr errors' \<Rightarrow> check_keys load_dict errors' rest))
               else if key = PStr ''primary'' then
                 (case in_kind_types val of
                    Inl e \<Rightarrow> Inl e
                  | Inr False \<Rightarrow> check_keys load_dict (errors @ [PrimaryValue val]) rest
                  | Inr True \<Rightarrow> check_keys load_dict errors rest)
               else if key = PStr ''features'' then
                 (case py_iter val of
                    Inl e \<Rightarrow> Inl e
                  | Inr namespaces \<Rightarrow>
                      (case check_features val errors namespaces of
                         Inl e \<Rightarrow> Inl e
                       | Inr errors' \<Rightarrow> check_keys load_dict errors' rest))
               else if key = PStr ''prepare'' then
                 (if type_name val \<noteq> ''collections.OrderedDict''
                  then check_keys load_dict (errors @ [PrepareValue (type_name val)]) rest
                  else check_keys load_dict errors rest)
               else check_keys load_dict errors rest))"

text \<open>
  \<^verbatim>\<open>
  def check_load_dict(load_dict, stamp):
      errors = []
      for key in load_dict: ...
      if errors:
          raise FabricError("Your load instructions have the following errors:\n{}".format('\n'.join(errors)), stamp, None)
  \<close>
  The diagnostic sink \<^verbatim>\<open>stamp\<close>, to which \<^verbatim>\<open>FabricError\<close> also writes the message,
  is not modelled.
\<close>

definition check_load_dict :: "pyval \<Rightarrow> py_error + unit" where
  "check_load_dict load_dict =
     (case py_iter load_dict of
        Inl e \<Rightarrow> Inl e
      | Inr keys \<Rightarrow>
          (case check_keys load_dict [] keys of
             Inl e \<Rightarrow> Inl e
           | Inr errors \<Rightarrow> if errors \<noteq> [] then Inl (FabricError errors) else Inr ()))"

section \<open>Notions of the specification\<close>

text \<open>
  The definitions of this section do not come from the code. They write down the words
  of the specification, so that the code can be compared with them.

  The fields of a resolved item that the specification names.
\<close>

definition is_persistent :: "resolved \<Rightarrow> bool option" where
  "is_persistent t = fst t"

definition is_derived_only :: "resolved \<Rightarrow> bool option" where
  "is_derived_only t = snd (snd (snd (snd t)))"

text \<open>
  The keys that a catalog entry has the resolver emit, in the words of the
  specification: the entry's own key when the requirement bound to the part of the
  key before the parenthesis equals \<^verbatim>\<open>True\<close>; nothing when the requirement is absent,
  equals \<^verbatim>\<open>False\<close> or is \<^verbatim>\<open>None\<close>; otherwise one key per element of the
  requirement, composed from the entry's key and the components of the element. The
  components of an element are its items when these are strings; an element of
  another shape has no components and gives no key.
\<close>

definition components_of :: "pyval \<Rightarrow> string list list" where
  "components_of r =
     (case py_iter r of
        Inl e \<Rightarrow> []
      | Inr elems \<Rightarrow>
          concat (map (\<lambda>dcomps. case py_str_items dcomps of Inl e \<Rightarrow> [] | Inr cs \<Rightarrow> [cs]) elems))"

definition wanted_keys :: "(string \<rightharpoonup> pyval) \<Rightarrow> string \<Rightarrow> string list" where
  "wanted_keys req_items dkey =
     (case req_items (fst (decomp dkey)) of
        None \<Rightarrow> []
      | Some r \<Rightarrow>
          if py_eq_bool r True then [dkey]
          else if py_eq_bool r False \<or> r = PNone then []
          else map (comp_key dkey) (components_of r))"

text \<open>
  A catalog entry can be resolved under a requirement mapping when each of its wanted
  keys has a resolution: the entry's own key when the requirement equals
  \<^verbatim>\<open>True\<close>; and, for a structural requirement, when the requirement can be iterated,
  each of its elements is a sequence of strings and the key composed from it has a
  resolution.
\<close>

definition resolvable :: "names \<Rightarrow> (string \<rightharpoonup> pyval) \<Rightarrow> string \<Rightarrow> bool" where
  "resolvable self req_items dkey =
     (case req_items (fst (decomp dkey)) of
        None \<Rightarrow> True
      | Some r \<Rightarrow>
          if py_eq_bool r True then isl (dinfo self dkey) = False
          else if py_eq_bool r False \<or> r = PNone then True
          else (case py_iter r of
                  Inl e \<Rightarrow> False
                | Inr elems \<Rightarrow>
                    list_all (\<lambda>dcomps. case py_str_items dcomps of
                                          Inl e \<Rightarrow> False
                                        | Inr cs \<Rightarrow> isl (dinfo self (comp_key dkey cs)) = False)
                      elems))"




section \<open>A worked example\<close>

text \<open>
  An engine whose previous request, made when the compiled data of the main source
  lay in another directory, resolved the XML identifiers of nodes and two features;
  the next request asks for the same XML identifiers, one of the two features, the
  derived items \<^verbatim>\<open>zG00\<close>, and no primary data.
\<close>

definition env0 :: "string \<rightharpoonup> string" where
  "env0 = [''m_compiled_dir'' \<mapsto> ''/data/m'', ''z_compiled_dir'' \<mapsto> ''/data/z'']"

definition self0 :: names where
  "self0 = (names_init env0)
     \<lparr>req_data_items :=
        [(''mXnf()'', (Some True, Some ''/old/m'', Some ''Xnf()'', Some ''dct'', Some False)),
         (''mFn0(ft,,text)'', (Some False, Some ''/data/m'', Some ''Fn0(ft,,text)'', Some ''dct'', Some False)),
         (''mFn0(ft,,suffix)'', (Some False, Some ''/data/m'', Some ''Fn0(ft,,suffix)'', Some ''dct'', Some False))]\<rparr>"

definition req0 :: "string \<rightharpoonup> pyval" where
  "req0 = [''mP00'' \<mapsto> PBool False,
           ''mXnf'' \<mapsto> PList [PTuple []],
           ''mFn0'' \<mapsto> PList [PTuple [PStr ''ft'', PStr [], PStr ''text'']],
           ''zG00'' \<mapsto> PBool True]"

definition items1 :: "(string \<times> resolved) list" where
  "items1 =
     [(''mXnf()'', (Some True, Some ''/data/m'', Some ''Xnf()'', Some ''dct'', Some False)),
      (''mFn0(ft,,text)'', (Some False, Some ''/data/m'', Some ''Fn0(ft,,text)'', Some ''dct'', Some False)),
      (''zG00(node_sort)'', (Some True, Some ''/data/z'', Some ''G00(node_sort)'', Some ''arr'', Some True)),
      (''zG00(node_sort_inv)'', (Some True, Some ''/data/z'', Some ''G00(node_sort_inv)'', Some ''dct'', Some True))]"

section \<open>Properties of the string operations\<close>

lemma py_split_not_Nil: "py_split c s \<noteq> []"
  by (induction s) (auto split: list.splits)

lemma py_split_notin: "c \<notin> set s \<Longrightarrow> py_split c s = [s]"
  by (induction s) auto

lemma py_split_append: "c \<notin> set p \<Longrightarrow> py_split c (p @ c # r) = p # py_split c r"
  by (induction p) auto

lemma hd_py_split: "hd (py_split c s) = takeWhile (\<lambda>x. x \<noteq> c) s"
  using py_split_not_Nil [of c] by (induction s) (auto split: list.splits)

lemma py_split_join:
  "cs \<noteq> [] \<Longrightarrow> \<forall>x\<in>set cs. c \<notin> set x \<Longrightarrow> py_split c (py_join [c] cs) = cs"
proof (induction "[c]" cs rule: py_join.induct)
  case 1
  then show ?case by simp
next
  case (2 p)
  then show ?case by (simp add: py_split_notin)
next
  case (3 p q ps)
  then show ?case by (simp add: py_split_append)
qed

lemma py_rstrip_snoc: "py_rstrip c (s @ [c]) = py_rstrip c s"
  by (simp add: py_rstrip_def)

lemma py_rstrip_id: "s = [] \<or> last s \<noteq> c \<Longrightarrow> py_rstrip c s = s"
  by (cases s rule: rev_cases) (auto simp: py_rstrip_def)

lemma py_join_no_trailing:
  "cs \<noteq> [] \<Longrightarrow> last cs = [] \<or> last (last cs) \<noteq> c \<Longrightarrow> s \<noteq> c \<Longrightarrow>
   py_join [s] cs = [] \<or> last (py_join [s] cs) \<noteq> c"
proof (induction "[s]" cs rule: py_join.induct)
  case 1
  then show ?case by simp
next
  case (2 p)
  then show ?case by simp
next
  case (3 p q ps)
  then show ?case by auto
qed

lemma set_py_join: "set (py_join sep cs) \<subseteq> set sep \<union> \<Union> (set ` set cs)"
  by (induction sep cs rule: py_join.induct) auto

lemma takeWhile_upto: "c \<notin> set p \<Longrightarrow> takeWhile (\<lambda>x. x \<noteq> c) (p @ c # r) = p"
  by (induction p) auto

lemma dropWhile_upto: "c \<notin> set p \<Longrightarrow> dropWhile (\<lambda>x. x \<noteq> c) (p @ c # r) = c # r"
  by (induction p) auto

section \<open>Properties of the key codec\<close>

lemma decomp_full_no_paren: "CHR ''('' \<notin> set dkey \<Longrightarrow> decomp_full dkey = Inl IndexError"
  by (simp add: decomp_full_def py_split_notin)

lemma decomp_full_paren:
  "CHR ''('' \<notin> set p \<Longrightarrow>
   decomp_full (p @ CHR ''('' # r) =
     Inr (p, py_split DCOMP_SEP (py_rstrip (CHR '')'') (hd (py_split (CHR ''('') r))))"
  using py_split_not_Nil [of "CHR ''(''" r]
  by (cases "py_split (CHR ''('') r") (simp_all add: decomp_full_def py_split_append)

lemma decomp_paren:
  "CHR ''('' \<notin> set p \<Longrightarrow> decomp (p @ CHR ''('' # r) = (p, CHR ''('' # r)"
  by (simp add: decomp_def py_split1_def takeWhile_upto dropWhile_upto)

lemma decomp_full_cases:
  "decomp_full dkey =
     (if CHR ''('' \<in> set dkey
      then Inr (takeWhile (\<lambda>x. x \<noteq> CHR ''('') dkey,
                py_split DCOMP_SEP (py_rstrip (CHR '')'')
                  (takeWhile (\<lambda>x. x \<noteq> CHR ''('') (tl (dropWhile (\<lambda>x. x \<noteq> CHR ''('') dkey)))))
      else Inl IndexError)"
proof (cases "CHR ''('' \<in> set dkey")
  case False
  then show ?thesis by (simp add: decomp_full_no_paren)
next
  case True
  then obtain p r where k: "dkey = p @ CHR ''('' # r" and p: "CHR ''('' \<notin> set p"
    by (meson split_list_first)
  have "takeWhile (\<lambda>x. x \<noteq> CHR ''('') dkey = p"
    using p by (simp add: k takeWhile_upto)
  moreover have "dropWhile (\<lambda>x. x \<noteq> CHR ''('') dkey = CHR ''('' # r"
    using p by (simp add: k dropWhile_upto)
  ultimately show ?thesis
    using True decomp_full_paren [OF p, of r] by (simp add: k hd_py_split)
qed

text \<open>
  Claim C2, as stated: composing with \<^verbatim>\<open>comp\<close> and decomposing again recovers the
  minimal key and the component list, also for the empty component list and for
  components that contain the separator. This fails: the component \<^verbatim>\<open>'a,b'\<close> comes
  back as two components, and the empty component list comes back as the list of one
  empty string.
\<close>

theorem comp_decomp_roundtrip_counterexample:
  "decomp_full (comp_key ''mFn0'' [''a,b'']) = Inr (''mFn0'', [''a'', ''b''])
 \<and> decomp_full (comp_key ''mXnf'' []) = Inr (''mXnf'', [[]])"
  by (simp add: decomp_full_def comp_key_def DCOMP_SEP_def py_rstrip_def)

text \<open>
  Claim C2, amended: for a minimal key without an opening parenthesis and a non-empty
  component list, no component of which contains the separator or an opening
  parenthesis and the last of which does not end with a closing parenthesis,
  \<open>decomp\<close> of the composed key returns the minimal key and the parenthesized
  suffix, and \<open>decomp_full\<close> returns the characters of the minimal key and exactly the
  components.
\<close>

theorem comp_decomp_roundtrip:
  assumes "CHR ''('' \<notin> set dkeymin" and "dcomps \<noteq> []"
    and "\<forall>c\<in>set dcomps. DCOMP_SEP \<notin> set c \<and> CHR ''('' \<notin> set c"
    and "last dcomps = [] \<or> last (last dcomps) \<noteq> CHR '')''"
  shows "decomp (comp_key dkeymin dcomps) = (dkeymin, ''('' @ py_join [DCOMP_SEP] dcomps @ '')'')
       \<and> decomp_full (comp_key dkeymin dcomps) = Inr (dkeymin, dcomps)"
proof -
  let ?j = "py_join [DCOMP_SEP] dcomps"
  have nop: "CHR ''('' \<notin> set (?j @ '')'')"
    using assms(3) set_py_join [of "[DCOMP_SEP]" dcomps] by (auto simp: DCOMP_SEP_def)
  have "hd (py_split (CHR ''('') (?j @ '')'')) = ?j @ '')''"
    using nop by (simp add: py_split_notin)
  moreover have "py_rstrip (CHR '')'') (?j @ '')'') = ?j"
    using py_join_no_trailing [OF assms(2) assms(4), of DCOMP_SEP]
    by (simp add: py_rstrip_snoc py_rstrip_id DCOMP_SEP_def)
  moreover have "py_split DCOMP_SEP ?j = dcomps"
    using assms(2,3) by (simp add: py_split_join)
  ultimately show ?thesis
    using decomp_full_paren [OF assms(1), of "?j @ '')''"] decomp_paren [OF assms(1), of "?j @ '')''"]
    by (simp add: comp_key_def)
qed

theorem comp_decomp_roundtrip_witness:
  "decomp (comp_key ''mFn0'' [''ft'', [], ''text'']) = (''mFn0'', ''(ft,,text)'')
 \<and> decomp_full (comp_key ''mFn0'' [''ft'', [], ''text'']) = Inr (''mFn0'', [''ft'', [], ''text''])"
  using comp_decomp_roundtrip [of "''mFn0''" "[''ft'', [], ''text'']"]
  by (simp add: DCOMP_SEP_def)

text \<open>
  Claim C9, as stated: \<open>decomp_full\<close> fails on a key with fewer than four characters
  before the component list and on a key whose component list is not closed. It does
  neither: both keys below are decomposed without an error, the first into three
  fields instead of five.
\<close>

theorem decomp_full_fails_counterexample:
  "decomp_full ''ab(x)'' = Inr (''ab'', [''x''])
 \<and> decomp_full ''mFn0(a,b'' = Inr (''mFn0'', [''a'', ''b''])"
  by (simp add: decomp_full_def DCOMP_SEP_def py_rstrip_def)

text \<open>
  Claim C9, amended: \<open>decomp_full\<close> fails exactly on the keys without an opening
  parenthesis, with IndexError. On every other key it returns the characters before
  the first opening parenthesis, however many, and the text up to the next opening
  parenthesis, without its trailing closing parentheses, split at the separator. In
  particular, on a well-formed key (four prefix characters, an opening parenthesis, a
  body, a closing parenthesis, no further opening parenthesis) it returns the four
  prefix characters and the components of the body.
\<close>

theorem decomp_full_fails_iff_no_paren:
  "decomp_full dkey =
     (if CHR ''('' \<in> set dkey
      then Inr (takeWhile (\<lambda>x. x \<noteq> CHR ''('') dkey,
                py_split DCOMP_SEP (py_rstrip (CHR '')'')
                  (takeWhile (\<lambda>x. x \<noteq> CHR ''('') (tl (dropWhile (\<lambda>x. x \<noteq> CHR ''('') dkey)))))
      else Inl IndexError)
 \<and> (CHR ''('' \<notin> set [dorigin, dgroup, dkind, ddir] \<and> CHR ''('' \<notin> set body \<longrightarrow>
      decomp_full ([dorigin, dgroup, dkind, ddir] @ ''('' @ body @ '')'') =
        Inr ([dorigin, dgroup, dkind, ddir], py_split DCOMP_SEP (py_rstrip (CHR '')'') body)))"
proof (intro conjI impI)
  show "decomp_full dkey =
     (if CHR ''('' \<in> set dkey
      then Inr (takeWhile (\<lambda>x. x \<noteq> CHR ''('') dkey,
                py_split DCOMP_SEP (py_rstrip (CHR '')'')
                  (takeWhile (\<lambda>x. x \<noteq> CHR ''('') (tl (dropWhile (\<lambda>x. x \<noteq> CHR ''('') dkey)))))
      else Inl IndexError)"
    by (rule decomp_full_cases)
next
  assume a: "CHR ''('' \<notin> set [dorigin, dgroup, dkind, ddir] \<and> CHR ''('' \<notin> set body"
  then have p: "CHR ''('' \<notin> set [dorigin, dgroup, dkind, ddir]" by simp
  have "hd (py_split (CHR ''('') (body @ '')'')) = body @ '')''"
    using a by (simp add: py_split_notin)
  then show "decomp_full ([dorigin, dgroup, dkind, ddir] @ ''('' @ body @ '')'') =
        Inr ([dorigin, dgroup, dkind, ddir], py_split DCOMP_SEP (py_rstrip (CHR '')'') body))"
    using decomp_full_paren [OF p, of "body @ '')''"] by (simp add: py_rstrip_snoc)
qed

theorem decomp_full_fails_iff_no_paren_witness:
  "decomp_full ''mFn0'' = Inl IndexError
 \<and> decomp_full ''mFn0(ft,,text)'' = Inr (''mFn0'', [''ft'', [], ''text''])"
  using decomp_full_fails_iff_no_paren
    [of "''mFn0''" "CHR ''m''" "CHR ''F''" "CHR ''n''" "CHR ''0''" "''ft,,text''"]
  by (simp add: DCOMP_SEP_def py_rstrip_def)

section \<open>Properties of ordered dictionaries and of the catalog\<close>

lemma set_od_set: "set (od_set d k v) \<subseteq> insert (k, v) (set d)"
  by (induction d) auto

lemma catalog_eq:
  "build_data_items_def data_items_tpl =
    [(''mP00(node_anchor)'', PBool False, ''arr''),
     (''mP00(node_anchor_items)'', PBool False, ''arr''),
     (''mG00(node_anchor_min)'', PBool True, ''arr''),
     (''mG00(node_anchor_max)'', PBool True, ''arr''),
     (''mP00(node_events)'', PBool False, ''arr''),
     (''mP00(node_events_items)'', PBool False, ''arr''),
     (''mP00(node_events_k)'', PBool False, ''arr''),
     (''mP00(node_events_n)'', PBool False, ''arr''),
     (''mG00(node_sort)'', PBool True, ''arr''),
     (''mG00(node_sort_inv)'', PBool True, ''dct''),
     (''mG00(edges_from)'', PBool True, ''arr''),
     (''mG00(edges_to)'', PBool True, ''arr''),
     (''mP00(primary_data)'', PBool False, ''str''),
     (''mXnf'', PList [], ''dct''), (''mXef'', PList [], ''dct''),
     (''mXnb'', PList [], ''dct''), (''mXeb'', PList [], ''dct''),
     (''mFn0'', PList [], ''dct''), (''mFe0'', PList [], ''dct''),
     (''mC0f'', PList [], ''dct''), (''mC0b'', PList [], ''dct''),
     (''aFn0'', PList [], ''dct''), (''aFe0'', PList [], ''dct''),
     (''aC0f'', PList [], ''dct''), (''aC0b'', PList [], ''dct''),
     (''zG00(node_sort)'', PNone, ''arr''),
     (''zG00(node_sort_inv)'', PNone, ''dct'')]"
  by (simp add: build_data_items_def_def data_items_tpl_def catalog_key_def DCOMP_SEP_def)

lemma unpack5_Inr:
  "unpack5 t = Inr (dorigin, dgroup, dkind, ddir, dcomps) \<longleftrightarrow> t = ([dorigin, dgroup, dkind, ddir], dcomps)"
  by (cases t) (auto simp: unpack5_def split: list.splits)

lemma dinfo_Inr:
  assumes "dinfo self dkey = Inr r"
  obtains dorigin dgroup dkind ddir dcomps docc_def dtype where
    "decomp_full dkey = Inr ([dorigin, dgroup, dkind, ddir], dcomps)"
    "map_of (data_items_def self) dkey = Some (docc_def, dtype)
       \<or> map_of (data_items_def self) (fst (decomp dkey)) = Some (docc_def, dtype)"
    "if dgroup = CHR ''T'' then r = (None, None, None, None, None)
     else \<exists>dloc. env self (dorigin # ''_compiled_dir'') = Some dloc
            \<and> r = (Some (dgroup \<noteq> CHR ''F'' \<and> dgroup \<noteq> CHR ''C''), Some dloc,
                   Some (comp_file dgroup dkind ddir dcomps), Some dtype, Some (dorigin = CHR ''z''))"
proof -
  let ?look = "case map_of (data_items_def self) dkey of
                 Some dbits \<Rightarrow> Some dbits
               | None \<Rightarrow> map_of (data_items_def self) (fst (decomp dkey))"
  from assms obtain docc_def dtype where look: "?look = Some (docc_def, dtype)"
    by (cases ?look) (auto simp: dinfo_def)
  from assms look obtain t where t: "decomp_full dkey = Inr t"
    by (cases "decomp_full dkey") (auto simp: dinfo_def)
  from assms look t obtain dorigin dgroup dkind ddir dcomps
    where u: "unpack5 t = Inr (dorigin, dgroup, dkind, ddir, dcomps)"
    by (cases "unpack5 t") (auto simp: dinfo_def)
  have 1: "decomp_full dkey = Inr ([dorigin, dgroup, dkind, ddir], dcomps)"
    using t u by (simp add: unpack5_Inr)
  have 2: "map_of (data_items_def self) dkey = Some (docc_def, dtype)
       \<or> map_of (data_items_def self) (fst (decomp dkey)) = Some (docc_def, dtype)"
    using look by (auto split: option.splits)
  have 3: "if dgroup = CHR ''T'' then r = (None, None, None, None, None)
     else \<exists>dloc. env self (dorigin # ''_compiled_dir'') = Some dloc
            \<and> r = (Some (dgroup \<noteq> CHR ''F'' \<and> dgroup \<noteq> CHR ''C''), Some dloc,
                   Some (comp_file dgroup dkind ddir dcomps), Some dtype, Some (dorigin = CHR ''z''))"
    using assms look t u by (auto simp: dinfo_def split: option.splits if_splits)
  from 1 2 3 show thesis by (rule that)
qed

lemma decomp_full_prefix:
  assumes "decomp_full dkey = Inr (p, dcomps)"
  shows "takeWhile (\<lambda>x. x \<noteq> CHR ''('') dkey = p \<and> fst (decomp dkey) = p \<and> CHR ''('' \<in> set dkey"
proof -
  have in_k: "CHR ''('' \<in> set dkey"
    using assms decomp_full_no_paren [of dkey] by auto
  then obtain q r where k: "dkey = q @ CHR ''('' # r" and q: "CHR ''('' \<notin> set q"
    by (meson split_list_first)
  have "p = q" using assms decomp_full_paren [OF q, of r] by (simp add: k)
  then show ?thesis
    using in_k q decomp_paren [OF q, of r] by (simp add: k takeWhile_upto)
qed

lemma catalog_prefix_group:
  assumes "map_of (build_data_items_def data_items_tpl) k = Some b"
    and "takeWhile (\<lambda>x. x \<noteq> CHR ''('') k = [dorigin, dgroup, dkind, ddir]"
  shows "dgroup \<noteq> CHR ''T''"
  using assms by (auto simp: catalog_eq split: if_splits)

section \<open>Properties of the resolver and the planner\<close>

lemma request_comps_inv:
  assumes "request_comps self dkey items elems = Inr items'"
    and "\<forall>(k, r)\<in>set items. dinfo self k = Inr r"
  shows "\<forall>(k, r)\<in>set items'. dinfo self k = Inr r"
  using assms
proof (induction elems arbitrary: items)
  case Nil
  then show ?case by simp
next
  case (Cons dcomps rest)
  from Cons.prems(1) obtain cs where cs: "py_str_items dcomps = Inr cs"
    by (cases "py_str_items dcomps") auto
  from Cons.prems(1) cs obtain r where r: "dinfo self (comp_key dkey cs) = Inr r"
    by (cases "dinfo self (comp_key dkey cs)") auto
  have step: "request_comps self dkey (od_set items (comp_key dkey cs) r) rest = Inr items'"
    using Cons.prems(1) cs r by simp
  have "\<forall>(k, r)\<in>set (od_set items (comp_key dkey cs) r). dinfo self k = Inr r"
    using Cons.prems(2) r set_od_set [of items "comp_key dkey cs" r] by auto
  with step show ?case by (rule Cons.IH)
qed

lemma request_entry_inv:
  assumes "request_entry self req_items items dkey = Inr items'"
    and "\<forall>(k, r)\<in>set items. dinfo self k = Inr r"
  shows "\<forall>(k, r)\<in>set items'. dinfo self k = Inr r"
proof (cases "req_items (fst (decomp dkey))")
  case None
  with assms show ?thesis by (simp add: request_entry_def)
next
  case (Some v)
  show ?thesis
  proof (cases "py_eq_bool v True")
    case True
    with assms(1) Some obtain r where r: "dinfo self dkey = Inr r" and i: "items' = od_set items dkey r"
      by (cases "dinfo self dkey") (auto simp: request_entry_def)
    then show ?thesis
      using assms(2) set_od_set [of items dkey r] by auto
  next
    case False
    show ?thesis
    proof (cases "py_eq_bool v False \<or> v = PNone")
      case True
      with assms Some False show ?thesis by (simp add: request_entry_def)
    next
      case no: False
      with assms(1) Some False obtain elems where "py_iter v = Inr elems"
        and "request_comps self dkey items elems = Inr items'"
        by (cases "py_iter v") (auto simp: request_entry_def)
      then show ?thesis using assms(2) request_comps_inv by blast
    qed
  qed
qed

lemma request_loop_inv:
  assumes "request_loop self req_items items dkeys = Inr items'"
    and "\<forall>(k, r)\<in>set items. dinfo self k = Inr r"
  shows "\<forall>(k, r)\<in>set items'. dinfo self k = Inr r"
  using assms
proof (induction dkeys arbitrary: items)
  case Nil
  then show ?case by simp
next
  case (Cons dkey rest)
  from Cons.prems(1) obtain items1 where e: "request_entry self req_items items dkey = Inr items1"
    and l: "request_loop self req_items items1 rest = Inr items'"
    by (cases "request_entry self req_items items dkey") auto
  from e Cons.prems(2) have "\<forall>(k, r)\<in>set items1. dinfo self k = Inr r"
    by (rule request_entry_inv)
  with l show ?case by (rule Cons.IH)
qed

lemma request_files_Inr:
  assumes "request_files self req_items = Inr (self', d)"
  shows "request_loop self req_items [] (map fst (data_items_def self)) = Inr (req_data_items self')
       \<and> self' = self\<lparr>old_data_items := req_data_items self, req_data_items := req_data_items self'\<rparr>
       \<and> d = plan (req_data_items self) (req_data_items self')"
  using assms
  by (cases "request_loop self req_items [] (map fst (data_items_def self))")
     (auto simp: request_files_def)

lemma request_files_resolved:
  assumes "request_files self req_items = Inr (self', d)"
    and "map_of (req_data_items self') dkey = Some r"
  shows "dinfo self dkey = Inr r"
proof -
  have "request_loop self req_items [] (map fst (data_items_def self)) = Inr (req_data_items self')"
    using request_files_Inr [OF assms(1)] by simp
  then have "\<forall>(k, r)\<in>set (req_data_items self'). dinfo self k = Inr r"
    by (rule request_loop_inv) simp
  moreover have "(dkey, r) \<in> set (req_data_items self')"
    using assms(2) by (rule map_of_SomeD)
  ultimately show ?thesis by auto
qed

lemma dinfo_catalog:
  assumes "data_items_def self = build_data_items_def data_items_tpl"
    and "dinfo self dkey = Inr r"
  shows "\<exists>dorigin dgroup dkind ddir dcomps.
           decomp_full dkey = Inr ([dorigin, dgroup, dkind, ddir], dcomps)
         \<and> is_derived_only r = Some (dorigin = CHR ''z'')"
proof -
  from assms(2) obtain dorigin dgroup dkind ddir dcomps docc_def dtype where
    d: "decomp_full dkey = Inr ([dorigin, dgroup, dkind, ddir], dcomps)"
    and look: "map_of (data_items_def self) dkey = Some (docc_def, dtype)
       \<or> map_of (data_items_def self) (fst (decomp dkey)) = Some (docc_def, dtype)"
    and r: "if dgroup = CHR ''T'' then r = (None, None, None, None, None)
     else \<exists>dloc. env self (dorigin # ''_compiled_dir'') = Some dloc
            \<and> r = (Some (dgroup \<noteq> CHR ''F'' \<and> dgroup \<noteq> CHR ''C''), Some dloc,
                   Some (comp_file dgroup dkind ddir dcomps), Some dtype, Some (dorigin = CHR ''z''))"
    by (rule dinfo_Inr)
  let ?p = "[dorigin, dgroup, dkind, ddir]"
  have p: "takeWhile (\<lambda>x. x \<noteq> CHR ''('') dkey = ?p" and f: "fst (decomp dkey) = ?p"
    using decomp_full_prefix [OF d] by simp_all
  have pp: "takeWhile (\<lambda>x. x \<noteq> CHR ''('') ?p = ?p"
    using p by (metis takeWhile_idem)
  have "dgroup \<noteq> CHR ''T''"
    using look
  proof
    assume "map_of (data_items_def self) dkey = Some (docc_def, dtype)"
    then show ?thesis using catalog_prefix_group [of dkey _ dorigin dgroup dkind ddir] p assms(1) by simp
  next
    assume "map_of (data_items_def self) (fst (decomp dkey)) = Some (docc_def, dtype)"
    then show ?thesis using catalog_prefix_group [of ?p _ dorigin dgroup dkind ddir] pp f assms(1) by simp
  qed
  with r d show ?thesis by (auto simp: is_derived_only_def)
qed

lemma dinfo_frame:
  "dinfo (self\<lparr>old_data_items := a, req_data_items := b\<rparr>) dkey = dinfo self dkey"
  by (simp add: dinfo_def cong: option.case_cong sum.case_cong prod.case_cong if_cong)

lemma request_comps_frame:
  "request_comps (self\<lparr>old_data_items := a, req_data_items := b\<rparr>) dkey items elems
     = request_comps self dkey items elems"
  by (induction elems arbitrary: items) (simp_all add: dinfo_frame Let_def split: sum.splits)

lemma request_entry_frame:
  "request_entry (self\<lparr>old_data_items := a, req_data_items := b\<rparr>) req_items items dkey
     = request_entry self req_items items dkey"
  by (simp add: request_entry_def dinfo_frame request_comps_frame
      cong: option.case_cong sum.case_cong if_cong)

lemma request_loop_frame:
  "request_loop (self\<lparr>old_data_items := a, req_data_items := b\<rparr>) req_items items dkeys
     = request_loop self req_items items dkeys"
  by (induction dkeys arbitrary: items) (simp_all add: request_entry_frame split: sum.splits)

lemma plan_same:
  "plan items items = \<lparr>clear = [], keep = map fst items, load = []\<rparr>"
proof -
  have k: "\<forall>k\<in>set (map fst items). map_of items k \<noteq> None"
    by (simp add: map_of_eq_None_iff)
  have "filter (\<lambda>dkey. map_of items dkey = None \<or> map_of items dkey \<noteq> map_of items dkey) (map fst items) = []"
    using k by (simp add: filter_empty_conv)
  moreover have "filter (\<lambda>dkey. same_item items items dkey) (map fst items) = map fst items"
    using k by (simp add: same_item_def filter_id_conv)
  moreover have "filter (\<lambda>dkey. \<not> same_item items items dkey
        \<and> (case map_of items dkey of None \<Rightarrow> False | Some t \<Rightarrow> not_last t)) (map fst items) = []"
    using k by (simp add: same_item_def filter_empty_conv)
  ultimately show ?thesis by (simp add: plan_def)
qed


lemma request_files_example:
  "request_files self0 req0 =
     Inr (self0\<lparr>old_data_items := req_data_items self0, req_data_items := items1\<rparr>,
          \<lparr>clear = [''mXnf()'', ''mFn0(ft,,suffix)''], keep = [''mFn0(ft,,text)''], load = [''mXnf()'']\<rparr>)"
  by (simp add: request_files_def self0_def names_init_def catalog_eq req0_def items1_def env0_def
      request_entry_def decomp_def py_split1_def dinfo_def decomp_full_def unpack5_def
      py_str_items_def comp_key_def comp_file_def DCOMP_SEP_def py_rstrip_def plan_def
      same_item_def not_last_def)


lemma not_last_derived: "is_derived_only t = Some b \<Longrightarrow> not_last t = (\<not> b)"
  by (simp add: not_last_def is_derived_only_def)

text \<open>
  Claim C1: when \<open>request_files\<close> returns, the previous resolution is the one that was
  current before the call, and the three lists are exactly these: \<open>clear\<close> holds the
  keys of the previous resolution that are absent from the new one or resolved to a
  different tuple; \<open>keep\<close> holds the keys of the new resolution that are in the
  previous one with the same tuple; \<open>load\<close> holds the keys of the new resolution
  that are not in \<open>keep\<close> and whose \<open>is_derived_only\<close> flag is false. The prior
  resolution is arbitrary; the catalog is the one that \<^verbatim>\<open>__init__\<close> builds.
\<close>

theorem request_files_partition:
  assumes "data_items_def self = build_data_items_def data_items_tpl"
    and "request_files self req_items = Inr (self', d)"
  shows "old_data_items self' = req_data_items self
       \<and> set (clear d) =
           {dkey \<in> fst ` set (old_data_items self').
              map_of (req_data_items self') dkey = None
              \<or> map_of (req_data_items self') dkey \<noteq> map_of (old_data_items self') dkey}
       \<and> set (keep d) =
           {dkey \<in> fst ` set (req_data_items self').
              dkey \<in> fst ` set (old_data_items self')
              \<and> map_of (req_data_items self') dkey = map_of (old_data_items self') dkey}
       \<and> set (load d) =
           {dkey \<in> fst ` set (req_data_items self').
              dkey \<notin> set (keep d)
              \<and> (\<exists>t. map_of (req_data_items self') dkey = Some t \<and> is_derived_only t = Some False)}"
proof -
  let ?old = "req_data_items self" and ?new = "req_data_items self'"
  have s: "self' = self\<lparr>old_data_items := ?old, req_data_items := ?new\<rparr>"
    and d: "d = plan ?old ?new"
    using request_files_Inr [OF assms(2)] by simp_all
  have old: "old_data_items self' = ?old"
    by (subst s) simp
  have c: "set (clear d) = {dkey \<in> fst ` set ?old.
              map_of ?new dkey = None \<or> map_of ?new dkey \<noteq> map_of ?old dkey}"
    by (auto simp: d plan_def)
  have k: "set (keep d) = {dkey \<in> fst ` set ?new.
              dkey \<in> fst ` set ?old \<and> map_of ?new dkey = map_of ?old dkey}"
    by (auto simp: d plan_def same_item_def map_of_eq_None_iff)
  have flag: "not_last t = (is_derived_only t = Some False)" if "map_of ?new dkey = Some t" for dkey t
  proof -
    have "dinfo self dkey = Inr t"
      using assms(2) that by (rule request_files_resolved)
    then obtain b where b: "is_derived_only t = Some b"
      using dinfo_catalog [OF assms(1)] by blast
    show ?thesis using not_last_derived [OF b] by (simp add: b)
  qed
  have kk: "dkey \<in> set (keep d) \<longleftrightarrow> same_item ?old ?new dkey" if "dkey \<in> fst ` set ?new" for dkey
    using that by (auto simp: d plan_def)
  have l: "set (load d) = {dkey \<in> fst ` set ?new.
              dkey \<notin> set (keep d)
              \<and> (\<exists>t. map_of ?new dkey = Some t \<and> is_derived_only t = Some False)}"
  proof (intro set_eqI iffI)
    fix dkey
    assume "dkey \<in> set (load d)"
    then have m: "dkey \<in> fst ` set ?new" and n: "\<not> same_item ?old ?new dkey"
      and t: "case map_of ?new dkey of None \<Rightarrow> False | Some t \<Rightarrow> not_last t"
      by (auto simp: d plan_def)
    from t obtain t' where tt: "map_of ?new dkey = Some t'" and nl: "not_last t'"
      by (cases "map_of ?new dkey") auto
    have f: "is_derived_only t' = Some False"
      using flag [OF tt] nl by simp
    have "dkey \<notin> set (keep d)"
      using kk [OF m] n by simp
    with m tt f show "dkey \<in> {dkey \<in> fst ` set ?new. dkey \<notin> set (keep d)
              \<and> (\<exists>t. map_of ?new dkey = Some t \<and> is_derived_only t = Some False)}"
      by blast
  next
    fix dkey
    assume "dkey \<in> {dkey \<in> fst ` set ?new. dkey \<notin> set (keep d)
              \<and> (\<exists>t. map_of ?new dkey = Some t \<and> is_derived_only t = Some False)}"
    then obtain t where m: "dkey \<in> fst ` set ?new" and n: "dkey \<notin> set (keep d)"
      and t: "map_of ?new dkey = Some t" and f: "is_derived_only t = Some False"
      by blast
    have "not_last t" using flag [OF t] f by simp
    moreover have "\<not> same_item ?old ?new dkey" using n kk [OF m] by simp
    ultimately show "dkey \<in> set (load d)"
      using m t by (auto simp: d plan_def)
  qed
  show ?thesis
    using c k l by (simp add: old)
qed

theorem request_files_partition_witness:
  "set (clear \<lparr>clear = [''mXnf()'', ''mFn0(ft,,suffix)''], keep = [''mFn0(ft,,text)''], load = [''mXnf()'']\<rparr>)
     = {dkey \<in> fst ` set (req_data_items self0).
          map_of items1 dkey = None \<or> map_of items1 dkey \<noteq> map_of (req_data_items self0) dkey}
 \<and> {''mFn0(ft,,text)''}
     = {dkey \<in> fst ` set items1.
          dkey \<in> fst ` set (req_data_items self0)
          \<and> map_of items1 dkey = map_of (req_data_items self0) dkey}
 \<and> {''mXnf()''}
     = {dkey \<in> fst ` set items1.
          dkey \<noteq> ''mFn0(ft,,text)''
          \<and> (\<exists>t. map_of items1 dkey = Some t \<and> is_derived_only t = Some False)}"
proof -
  have c: "data_items_def self0 = build_data_items_def data_items_tpl"
    by (simp add: self0_def names_init_def)
  show ?thesis
    using request_files_partition [OF c request_files_example] by simp
qed

text \<open>
  Claim C4: for every requirement mapping and every prior state, a key in the
  \<open>load\<close> list decomposes into four prefix fields and its components, and its
  origin field is not the derived origin \<^verbatim>\<open>z\<close>.
\<close>

theorem derived_never_loaded:
  assumes "data_items_def self = build_data_items_def data_items_tpl"
    and "request_files self req_items = Inr (self', d)"
    and "dkey \<in> set (load d)"
  shows "\<exists>dorigin dgroup dkind ddir dcomps.
           decomp_full dkey = Inr ([dorigin, dgroup, dkind, ddir], dcomps) \<and> dorigin \<noteq> CHR ''z''"
proof -
  have d: "d = plan (req_data_items self) (req_data_items self')"
    using request_files_Inr [OF assms(2)] by simp
  from assms(3) obtain t where t: "map_of (req_data_items self') dkey = Some t" and n: "not_last t"
    by (cases "map_of (req_data_items self') dkey") (auto simp: d plan_def)
  have "dinfo self dkey = Inr t"
    using assms(2) t by (rule request_files_resolved)
  then obtain dorigin dgroup dkind ddir dcomps
    where k: "decomp_full dkey = Inr ([dorigin, dgroup, dkind, ddir], dcomps)"
      and z: "is_derived_only t = Some (dorigin = CHR ''z'')"
    using dinfo_catalog [OF assms(1)] by blast
  have "dorigin \<noteq> CHR ''z''"
    using not_last_derived [OF z] n by simp
  with k show ?thesis by blast
qed

theorem derived_never_loaded_witness:
  "map_of items1 ''zG00(node_sort)'' \<noteq> None
 \<and> ''zG00(node_sort)'' \<notin> set [''mXnf()'']
 \<and> (\<exists>dorigin dgroup dkind ddir dcomps.
       decomp_full ''mXnf()'' = Inr ([dorigin, dgroup, dkind, ddir], dcomps) \<and> dorigin \<noteq> CHR ''z'')"
proof -
  have c: "data_items_def self0 = build_data_items_def data_items_tpl"
    by (simp add: self0_def names_init_def)
  show ?thesis
    using derived_never_loaded [OF c request_files_example, of "''mXnf()''"]
    by (simp add: items1_def)
qed

text \<open>
  Claim C10: \<open>keep\<close> shares no key with \<open>clear\<close> and none with \<open>load\<close>, and a
  key that both resolutions have, with different tuples and a false
  \<open>is_derived_only\<close> flag in the new one, is in \<open>clear\<close> and in \<open>load\<close>.
\<close>

theorem keep_disjoint_clear_load_overlap:
  assumes "request_files self req_items = Inr (self', d)"
  shows "set (keep d) \<inter> set (clear d) = {}
       \<and> set (keep d) \<inter> set (load d) = {}
       \<and> (\<forall>dkey t t'. map_of (req_data_items self) dkey = Some t
             \<and> map_of (req_data_items self') dkey = Some t'
             \<and> t \<noteq> t' \<and> is_derived_only t' = Some False
           \<longrightarrow> dkey \<in> set (clear d) \<and> dkey \<in> set (load d))"
proof -
  let ?old = "req_data_items self" and ?new = "req_data_items self'"
  have d: "d = plan ?old ?new"
    using request_files_Inr [OF assms] by simp
  have 1: "set (keep d) \<inter> set (clear d) = {}"
    by (auto simp: d plan_def same_item_def)
  have 2: "set (keep d) \<inter> set (load d) = {}"
    by (auto simp: d plan_def)
  have 3: "dkey \<in> set (clear d) \<and> dkey \<in> set (load d)"
    if "map_of ?old dkey = Some t" "map_of ?new dkey = Some t'" "t \<noteq> t'" "is_derived_only t' = Some False"
    for dkey t t'
  proof -
    have "dkey \<in> fst ` set ?old" "dkey \<in> fst ` set ?new"
      using that(1,2) by (auto dest: map_of_SomeD intro: rev_image_eqI)
    moreover have "not_last t'" using not_last_derived [OF that(4)] by simp
    ultimately show ?thesis
      using that(1,2,3) by (auto simp: d plan_def same_item_def)
  qed
  from 1 2 3 show ?thesis by blast
qed

theorem keep_disjoint_clear_load_overlap_witness:
  "set [''mFn0(ft,,text)''] \<inter> set [''mXnf()'', ''mFn0(ft,,suffix)''] = {}
 \<and> set [''mFn0(ft,,text)''] \<inter> set [''mXnf()''] = {}
 \<and> map_of (req_data_items self0) ''mXnf()''
      = Some (Some True, Some ''/old/m'', Some ''Xnf()'', Some ''dct'', Some False)
 \<and> map_of items1 ''mXnf()''
      = Some (Some True, Some ''/data/m'', Some ''Xnf()'', Some ''dct'', Some False)
 \<and> ''mXnf()'' \<in> set [''mXnf()'', ''mFn0(ft,,suffix)'']
 \<and> ''mXnf()'' \<in> set [''mXnf()'']"
  using keep_disjoint_clear_load_overlap [OF request_files_example]
  by (simp add: self0_def items1_def)

text \<open>
  Claim C3: after a call of \<open>request_files\<close> that returned, a second call with the
  same requirement mapping returns too, with nothing to clear, nothing to load, and
  all the keys of the resolution, in its order, to keep; the resolution is unchanged.
\<close>

theorem request_files_idempotent:
  assumes "request_files self req_items = Inr (self1, d1)"
  shows "request_files self1 req_items =
           Inr (self1\<lparr>old_data_items := req_data_items self1\<rparr>,
                \<lparr>clear = [], keep = map fst (req_data_items self1), load = []\<rparr>)"
proof -
  let ?new = "req_data_items self1"
  have l: "request_loop self req_items [] (map fst (data_items_def self)) = Inr ?new"
    and s: "self1 = self\<lparr>old_data_items := req_data_items self, req_data_items := ?new\<rparr>"
    using request_files_Inr [OF assms] by simp_all
  have c: "data_items_def self1 = data_items_def self"
    by (subst s) simp
  have "request_loop self1 req_items [] (map fst (data_items_def self1)) = Inr ?new"
    unfolding c by (subst s) (simp only: request_loop_frame l)
  then show ?thesis
    by (simp add: request_files_def plan_same)
qed

theorem request_files_idempotent_witness:
  "request_files (self0\<lparr>old_data_items := req_data_items self0, req_data_items := items1\<rparr>) req0 =
     Inr (self0\<lparr>old_data_items := items1, req_data_items := items1\<rparr>,
          \<lparr>clear = [], keep = [''mXnf()'', ''mFn0(ft,,text)'', ''zG00(node_sort)'', ''zG00(node_sort_inv)''],
             load = []\<rparr>)"
  using request_files_idempotent [OF request_files_example]
  by (simp add: items1_def)


text \<open>
  Claim C6, as stated, has \<open>dinfo\<close> return five null fields for every key whose
  group is \<^verbatim>\<open>T\<close>. The catalog lookup comes first in \<open>dinfo\<close>, and the catalog
  that \<^verbatim>\<open>__init__\<close> builds has no key of group \<^verbatim>\<open>T\<close>: on the key
  \<^verbatim>\<open>mT00(x)\<close>, which decomposes well, \<open>dinfo\<close> raises KeyError.
\<close>

theorem dinfo_temp_counterexample:
  "decomp_full ''mT00(x)'' = Inr (''mT00'', [''x''])
 \<and> dinfo (names_init env0) ''mT00(x)'' = Inl KeyError"
  by (simp add: dinfo_def names_init_def catalog_eq decomp_def py_split1_def decomp_full_def
      DCOMP_SEP_def py_rstrip_def)

text \<open>
  Claim C6, amended: whenever \<open>dinfo\<close> accepts a key, the key decomposes into four
  prefix fields and its components; if the group is \<^verbatim>\<open>T\<close> the result is the tuple
  of five null fields, and otherwise \<open>is_persistent\<close> is false exactly for the groups
  \<^verbatim>\<open>F\<close> and \<^verbatim>\<open>C\<close> and \<open>is_derived_only\<close> is true exactly for the origin
  \<^verbatim>\<open>z\<close>. With the catalog that \<^verbatim>\<open>__init__\<close> builds, no key of group
  \<^verbatim>\<open>T\<close> is accepted: \<open>dinfo\<close> raises KeyError on each.
\<close>

theorem dinfo_fields:
  "(dinfo self dkey = Inr r \<longrightarrow>
      (\<exists>dorigin dgroup dkind ddir dcomps.
          decomp_full dkey = Inr ([dorigin, dgroup, dkind, ddir], dcomps)
        \<and> (if dgroup = CHR ''T'' then r = (None, None, None, None, None)
           else is_persistent r = Some (dgroup \<noteq> CHR ''F'' \<and> dgroup \<noteq> CHR ''C'')
              \<and> is_derived_only r = Some (dorigin = CHR ''z''))))
 \<and> (data_items_def self = build_data_items_def data_items_tpl
      \<and> decomp_full dkey = Inr ([torigin, CHR ''T'', tkind, tdir], tcomps)
    \<longrightarrow> dinfo self dkey = Inl KeyError)"
proof (intro conjI impI)
  assume "dinfo self dkey = Inr r"
  then obtain dorigin dgroup dkind ddir dcomps docc_def dtype where
    d: "decomp_full dkey = Inr ([dorigin, dgroup, dkind, ddir], dcomps)"
    and "map_of (data_items_def self) dkey = Some (docc_def, dtype)
       \<or> map_of (data_items_def self) (fst (decomp dkey)) = Some (docc_def, dtype)"
    and r: "if dgroup = CHR ''T'' then r = (None, None, None, None, None)
     else \<exists>dloc. env self (dorigin # ''_compiled_dir'') = Some dloc
            \<and> r = (Some (dgroup \<noteq> CHR ''F'' \<and> dgroup \<noteq> CHR ''C''), Some dloc,
                   Some (comp_file dgroup dkind ddir dcomps), Some dtype, Some (dorigin = CHR ''z''))"
    by (rule dinfo_Inr)
  have "if dgroup = CHR ''T'' then r = (None, None, None, None, None)
        else is_persistent r = Some (dgroup \<noteq> CHR ''F'' \<and> dgroup \<noteq> CHR ''C'')
           \<and> is_derived_only r = Some (dorigin = CHR ''z'')"
    using r by (auto simp: is_persistent_def is_derived_only_def)
  with d show "\<exists>dorigin dgroup dkind ddir dcomps.
          decomp_full dkey = Inr ([dorigin, dgroup, dkind, ddir], dcomps)
        \<and> (if dgroup = CHR ''T'' then r = (None, None, None, None, None)
           else is_persistent r = Some (dgroup \<noteq> CHR ''F'' \<and> dgroup \<noteq> CHR ''C'')
              \<and> is_derived_only r = Some (dorigin = CHR ''z''))"
    by blast
next
  assume a: "data_items_def self = build_data_items_def data_items_tpl
      \<and> decomp_full dkey = Inr ([torigin, CHR ''T'', tkind, tdir], tcomps)"
  let ?p = "[torigin, CHR ''T'', tkind, tdir]"
  have p: "takeWhile (\<lambda>x. x \<noteq> CHR ''('') dkey = ?p" and f: "fst (decomp dkey) = ?p"
    using a decomp_full_prefix [of dkey ?p tcomps] by simp_all
  have pp: "takeWhile (\<lambda>x. x \<noteq> CHR ''('') ?p = ?p"
    using p by (metis takeWhile_idem)
  have 1: "map_of (data_items_def self) dkey = None"
    using a p catalog_prefix_group [of dkey _ torigin "CHR ''T''" tkind tdir]
    by (cases "map_of (data_items_def self) dkey") auto
  have 2: "map_of (data_items_def self) ?p = None"
    using a pp catalog_prefix_group [of ?p _ torigin "CHR ''T''" tkind tdir]
    by (cases "map_of (data_items_def self) ?p") auto
  show "dinfo self dkey = Inl KeyError"
    by (simp add: dinfo_def 1 2 f)
qed


theorem dinfo_fields_witness:
  "dinfo self0 ''mFn0(ft,,text)''
     = Inr (Some False, Some ''/data/m'', Some ''Fn0(ft,,text)'', Some ''dct'', Some False)
 \<and> is_persistent (Some False, Some ''/data/m'', Some ''Fn0(ft,,text)'', Some ''dct'', Some False) = Some False
 \<and> dinfo self0 ''zG00(node_sort)''
     = Inr (Some True, Some ''/data/z'', Some ''G00(node_sort)'', Some ''arr'', Some True)
 \<and> dinfo (self0\<lparr>data_items_def := [(''mT00'', PBool False, ''arr'')]\<rparr>) ''mT00(x)''
     = Inr (None, None, None, None, None)
 \<and> dinfo self0 ''mT00(x)'' = Inl KeyError"
proof -
  have c: "data_items_def self0 = build_data_items_def data_items_tpl"
    by (simp add: self0_def names_init_def)
  have f: "dinfo self0 ''mFn0(ft,,text)''
     = Inr (Some False, Some ''/data/m'', Some ''Fn0(ft,,text)'', Some ''dct'', Some False)"
    by (simp add: dinfo_def self0_def names_init_def catalog_eq env0_def decomp_def py_split1_def
        decomp_full_def unpack5_def comp_file_def DCOMP_SEP_def py_rstrip_def)
  have z: "dinfo self0 ''zG00(node_sort)''
     = Inr (Some True, Some ''/data/z'', Some ''G00(node_sort)'', Some ''arr'', Some True)"
    by (simp add: dinfo_def self0_def names_init_def catalog_eq env0_def decomp_def py_split1_def
        decomp_full_def unpack5_def comp_file_def DCOMP_SEP_def py_rstrip_def)
  have t: "dinfo (self0\<lparr>data_items_def := [(''mT00'', PBool False, ''arr'')]\<rparr>) ''mT00(x)''
     = Inr (None, None, None, None, None)"
    by (simp add: dinfo_def decomp_def py_split1_def decomp_full_def unpack5_def DCOMP_SEP_def
        py_rstrip_def)
  have k: "decomp_full ''mT00(x)'' = Inr ([CHR ''m'', CHR ''T'', CHR ''0'', CHR ''0''], [''x''])"
    by (simp add: decomp_full_def DCOMP_SEP_def py_rstrip_def)
  show ?thesis
    using f z t
      dinfo_fields [where self = self0 and dkey = "''mFn0(ft,,text)''"
        and r = "(Some False, Some ''/data/m'', Some ''Fn0(ft,,text)'', Some ''dct'', Some False)"]
      dinfo_fields [where self = self0 and dkey = "''mT00(x)''" and torigin = "CHR ''m''"
        and tkind = "CHR ''0''" and tdir = "CHR ''0''" and tcomps = "[''x'']"] c k
    by (simp add: is_persistent_def)
qed

section \<open>The keys that the resolver emits\<close>

text \<open>
  Storing a key extends the resolution by this key; the loops of \<^verbatim>\<open>request_files\<close>
  so extend the empty resolution by the wanted keys of the catalog entries.
\<close>

lemma od_set_fresh: "k \<notin> fst ` set d \<Longrightarrow> od_set d k v = d @ [(k, v)]"
  by (induction d) auto

lemma keys_od_set: "fst ` set (od_set d k v) = insert k (fst ` set d)"
  by (induction d) auto

lemma extends_by_Nil: "extends_by d d []"
  by (simp add: extends_by_def)

lemma extends_by_od_set: "extends_by d (od_set d k v) [k]"
proof -
  have "map fst (od_set d k v) = map fst d @ [k]" if "k \<notin> fst ` set d"
    using od_set_fresh [OF that] by simp
  then show ?thesis
    by (simp add: extends_by_def keys_od_set)
qed

lemma extends_by_append:
  assumes "extends_by a b ks1" and "extends_by b c ks2"
  shows "extends_by a c (ks1 @ ks2)"
proof -
  have s: "set (map fst c) = set (map fst a) \<union> set (ks1 @ ks2)"
    using assms by (auto simp: extends_by_def)
  have o: "map fst c = map fst a @ ks1 @ ks2" if d: "distinct (map fst a @ ks1 @ ks2)"
  proof -
    have "distinct (map fst a @ ks1)" using d by auto
    then have b: "map fst b = map fst a @ ks1"
      using assms(1) by (simp add: extends_by_def)
    then have "distinct (map fst b @ ks2)" using d by simp
    then have "map fst c = map fst b @ ks2"
      using assms(2) by (simp add: extends_by_def)
    with b show ?thesis by simp
  qed
  show ?thesis
    unfolding extends_by_def using s o by simp
qed

lemma request_comps_extends:
  assumes "request_comps self dkey items elems = Inr items'"
  shows "extends_by items items'
           (map (comp_key dkey)
              (concat (map (\<lambda>dcomps. case py_str_items dcomps of Inl e \<Rightarrow> [] | Inr cs \<Rightarrow> [cs]) elems)))"
  using assms
proof (induction elems arbitrary: items)
  case Nil
  then show ?case by (simp add: extends_by_Nil)
next
  case (Cons dcomps rest)
  from Cons.prems obtain cs where cs: "py_str_items dcomps = Inr cs"
    by (cases "py_str_items dcomps") auto
  from Cons.prems cs obtain r where r: "dinfo self (comp_key dkey cs) = Inr r"
    by (cases "dinfo self (comp_key dkey cs)") auto
  have step: "request_comps self dkey (od_set items (comp_key dkey cs) r) rest = Inr items'"
    using Cons.prems cs r by simp
  have "extends_by items items'
          ([comp_key dkey cs] @ map (comp_key dkey)
              (concat (map (\<lambda>dcomps. case py_str_items dcomps of Inl e \<Rightarrow> [] | Inr cs \<Rightarrow> [cs]) rest)))"
    using extends_by_od_set Cons.IH [OF step] by (rule extends_by_append)
  then show ?case by (simp add: cs)
qed

lemma request_entry_extends:
  assumes "request_entry self req_items items dkey = Inr items'"
  shows "extends_by items items' (wanted_keys req_items dkey)"
proof (cases "req_items (fst (decomp dkey))")
  case None
  with assms show ?thesis by (simp add: request_entry_def wanted_keys_def extends_by_Nil)
next
  case (Some v)
  show ?thesis
  proof (cases "py_eq_bool v True")
    case True
    with assms Some obtain r where "items' = od_set items dkey r"
      by (cases "dinfo self dkey") (auto simp: request_entry_def)
    then show ?thesis
      using Some True by (simp add: wanted_keys_def extends_by_od_set)
  next
    case False
    show ?thesis
    proof (cases "py_eq_bool v False \<or> v = PNone")
      case True
      with assms Some False show ?thesis
        by (simp add: request_entry_def wanted_keys_def extends_by_Nil)
    next
      case no: False
      with assms Some False obtain elems where i: "py_iter v = Inr elems"
        and c: "request_comps self dkey items elems = Inr items'"
        by (cases "py_iter v") (auto simp: request_entry_def)
      show ?thesis
        using request_comps_extends [OF c] Some False no
        by (simp add: wanted_keys_def components_of_def i)
    qed
  qed
qed

lemma request_loop_extends:
  assumes "request_loop self req_items items dkeys = Inr items'"
  shows "extends_by items items' (concat (map (wanted_keys req_items) dkeys))"
  using assms
proof (induction dkeys arbitrary: items)
  case Nil
  then show ?case by (simp add: extends_by_Nil)
next
  case (Cons dkey rest)
  from Cons.prems obtain items1 where e: "request_entry self req_items items dkey = Inr items1"
    and l: "request_loop self req_items items1 rest = Inr items'"
    by (cases "request_entry self req_items items dkey") auto
  have "extends_by items items'
          (wanted_keys req_items dkey @ concat (map (wanted_keys req_items) rest))"
    using request_entry_extends [OF e] Cons.IH [OF l] by (rule extends_by_append)
  then show ?case by simp
qed

text \<open>
  Claim C7, in the words of the specification, does not hold of the code for every
  catalog entry and requirement mapping. The requirement \<^verbatim>\<open>True\<close> bound to a catalog
  key without parentheses (\<^verbatim>\<open>mFn0\<close>, one of the twelve feature, connectivity and
  identifier entries) has \<open>dinfo\<close> split the key at the parenthesis and take the
  part that is not there: \<^verbatim>\<open>request_files\<close> raises IndexError and emits nothing. A
  structural requirement bound to an entry whose key has its components already
  (\<^verbatim>\<open>mG00(node_anchor_min)\<close>) composes a key with two parenthesised parts, which the
  catalog does not know: KeyError.
\<close>

theorem request_files_true_counterexample:
  "request_files (names_init env0) [''mFn0'' \<mapsto> PBool True] = Inl IndexError
 \<and> request_files (names_init env0) [''mG00'' \<mapsto> PList [PTuple [PStr ''x'']]] = Inl KeyError"
  by (simp add: request_files_def names_init_def catalog_eq env0_def
      request_entry_def decomp_def py_split1_def dinfo_def decomp_full_def unpack5_def
      py_str_items_def comp_key_def comp_file_def DCOMP_SEP_def py_rstrip_def)

lemma request_comps_returns:
  "(\<exists>items'. request_comps self dkey items elems = Inr items') \<longleftrightarrow>
     list_all (\<lambda>dcomps. case py_str_items dcomps of
                           Inl e \<Rightarrow> False
                         | Inr cs \<Rightarrow> isl (dinfo self (comp_key dkey cs)) = False) elems"
proof (induction elems arbitrary: items)
  case Nil
  then show ?case by simp
next
  case (Cons dcomps rest)
  show ?case
  proof (cases "py_str_items dcomps")
    case (Inl e)
    then show ?thesis by simp
  next
    case (Inr cs)
    show ?thesis
    proof (cases "dinfo self (comp_key dkey cs)")
      case d: (Inl e)
      with Inr show ?thesis by simp
    next
      case d: (Inr r)
      with Inr Cons.IH [of "od_set items (comp_key dkey cs) r"] show ?thesis by simp
    qed
  qed
qed

lemma request_entry_returns:
  "(\<exists>items'. request_entry self req_items items dkey = Inr items') \<longleftrightarrow>
     resolvable self req_items dkey"
proof (cases "req_items (fst (decomp dkey))")
  case None
  then show ?thesis by (simp add: request_entry_def resolvable_def)
next
  case (Some r)
  show ?thesis
  proof (cases "py_eq_bool r True")
    case True
    with Some show ?thesis
      by (cases "dinfo self dkey") (simp_all add: request_entry_def resolvable_def)
  next
    case False
    show ?thesis
    proof (cases "py_eq_bool r False \<or> r = PNone")
      case True
      with Some False show ?thesis by (simp add: request_entry_def resolvable_def)
    next
      case no: False
      show ?thesis
      proof (cases "py_iter r")
        case (Inl e)
        with Some False no show ?thesis by (simp add: request_entry_def resolvable_def)
      next
        case (Inr elems)
        with Some False no request_comps_returns [of self dkey items elems] show ?thesis
          by (simp add: request_entry_def resolvable_def)
      qed
    qed
  qed
qed

lemma request_loop_returns:
  "(\<exists>items'. request_loop self req_items items dkeys = Inr items') \<longleftrightarrow>
     (\<forall>dkey\<in>set dkeys. resolvable self req_items dkey)"
proof (induction dkeys arbitrary: items)
  case Nil
  then show ?case by simp
next
  case (Cons dkey rest)
  show ?case
  proof (cases "request_entry self req_items items dkey")
    case (Inl e)
    then have "\<not> resolvable self req_items dkey"
      using request_entry_returns [of self req_items items dkey] by simp
    with Inl show ?thesis by simp
  next
    case (Inr items1)
    then have "resolvable self req_items dkey"
      using request_entry_returns [of self req_items items dkey] by simp
    with Inr Cons.IH [of items1] show ?thesis by simp
  qed
qed

lemma request_files_returns:
  "(\<exists>self' d. request_files self req_items = Inr (self', d)) \<longleftrightarrow>
     (\<forall>dkey\<in>set (map fst (data_items_def self)). resolvable self req_items dkey)"
proof -
  have "(\<exists>self' d. request_files self req_items = Inr (self', d)) \<longleftrightarrow>
      (\<exists>items'. request_loop self req_items [] (map fst (data_items_def self)) = Inr items')"
    by (cases "request_loop self req_items [] (map fst (data_items_def self))")
      (simp_all add: request_files_def)
  then show ?thesis
    using request_loop_returns [of self req_items "[]" "map fst (data_items_def self)"] by simp
qed

lemma request_files_keys:
  assumes "request_files self req_items = Inr (self', d)"
  shows "extends_by [] (req_data_items self')
           (concat (map (wanted_keys req_items) (map fst (data_items_def self))))"
proof -
  have "request_loop self req_items [] (map fst (data_items_def self)) = Inr (req_data_items self')"
    using request_files_Inr [OF assms] by simp
  then show ?thesis by (rule request_loop_extends)
qed

lemma true_requirement_paren:
  assumes "request_files self req_items = Inr (self', d)"
    and k: "dkey \<in> set (map fst (data_items_def self))"
    and r: "req_items (fst (decomp dkey)) = Some r" "py_eq_bool r True"
  shows "CHR ''('' \<in> set dkey"
proof -
  have "\<forall>dkey\<in>set (map fst (data_items_def self)). resolvable self req_items dkey"
    using assms(1) request_files_returns [of self req_items] by blast
  then have "resolvable self req_items dkey" using k by blast
  then obtain t where "dinfo self dkey = Inr t"
    using r by (cases "dinfo self dkey") (simp_all add: resolvable_def)
  then obtain p cs where "decomp_full dkey = Inr (p, cs)"
    by (rule dinfo_Inr)
  then show ?thesis using decomp_full_prefix by blast
qed

text \<open>
  Claim C7, amended. \<^verbatim>\<open>request_files\<close> returns exactly when every catalog entry can
  be resolved under the requirement mapping. When it returns, the keys of the new
  resolution are the wanted keys of the catalog entries: the entry's own key for a
  requirement equal to \<^verbatim>\<open>True\<close>, no key for an absent requirement and for one equal
  to \<^verbatim>\<open>False\<close> or \<^verbatim>\<open>None\<close>, and otherwise one key per element of the requirement,
  composed by \<^verbatim>\<open>comp\<close> from the entry's key and the element. They are stored in
  catalog order when no key is wanted twice (a key wanted twice is stored once). Every
  stored key is bound to its resolution by \<open>dinfo\<close>. And an entry whose requirement
  equals \<^verbatim>\<open>True\<close> has a key with a parenthesis: for the other entries the
  requirement \<^verbatim>\<open>True\<close> does not return.
\<close>

theorem request_files_resolution:
  "((\<exists>self' d. request_files self req_items = Inr (self', d)) \<longleftrightarrow>
      (\<forall>dkey\<in>set (map fst (data_items_def self)). resolvable self req_items dkey))
 \<and> (\<forall>self' d. request_files self req_items = Inr (self', d) \<longrightarrow>
       set (map fst (req_data_items self'))
         = set (concat (map (wanted_keys req_items) (map fst (data_items_def self))))
     \<and> (distinct (concat (map (wanted_keys req_items) (map fst (data_items_def self)))) \<longrightarrow>
          map fst (req_data_items self')
            = concat (map (wanted_keys req_items) (map fst (data_items_def self))))
     \<and> (\<forall>dkey r. map_of (req_data_items self') dkey = Some r \<longrightarrow> dinfo self dkey = Inr r)
     \<and> (\<forall>dkey\<in>set (map fst (data_items_def self)). \<forall>r.
           req_items (fst (decomp dkey)) = Some r \<and> py_eq_bool r True \<longrightarrow>
             CHR ''('' \<in> set dkey))"
proof -
  let ?wanted = "concat (map (wanted_keys req_items) (map fst (data_items_def self)))"
  have 0: "(\<exists>self' d. request_files self req_items = Inr (self', d)) \<longleftrightarrow>
      (\<forall>dkey\<in>set (map fst (data_items_def self)). resolvable self req_items dkey)"
    by (rule request_files_returns)
  have 1: "set (map fst (req_data_items self')) = set ?wanted"
    if "request_files self req_items = Inr (self', d)" for self' d
    using request_files_keys [OF that] by (simp add: extends_by_def)
  have 2: "distinct ?wanted \<longrightarrow> map fst (req_data_items self') = ?wanted"
    if "request_files self req_items = Inr (self', d)" for self' d
    using request_files_keys [OF that] by (simp add: extends_by_def)
  have 3: "\<forall>dkey r. map_of (req_data_items self') dkey = Some r \<longrightarrow> dinfo self dkey = Inr r"
    if "request_files self req_items = Inr (self', d)" for self' d
    using request_files_resolved [OF that] by blast
  have 4: "\<forall>dkey\<in>set (map fst (data_items_def self)). \<forall>r.
           req_items (fst (decomp dkey)) = Some r \<and> py_eq_bool r True \<longrightarrow> CHR ''('' \<in> set dkey"
    if "request_files self req_items = Inr (self', d)" for self' d
    using true_requirement_paren [OF that] by blast
  show ?thesis
    using 0 1 2 3 4 by (intro conjI allI impI) blast+
qed

text \<open>
  The worked example: the four keys wanted by \<open>req0\<close> are the keys of the new
  resolution, in this order.
\<close>

theorem request_files_resolution_witness:
  "concat (map (wanted_keys req0) (map fst (data_items_def self0)))
     = [''mXnf()'', ''mFn0(ft,,text)'', ''zG00(node_sort)'', ''zG00(node_sort_inv)'']
 \<and> map fst items1 = [''mXnf()'', ''mFn0(ft,,text)'', ''zG00(node_sort)'', ''zG00(node_sort_inv)'']
 \<and> resolvable self0 req0 ''zG00(node_sort)''
 \<and> dinfo self0 ''zG00(node_sort)''
     = Inr (Some True, Some ''/data/z'', Some ''G00(node_sort)'', Some ''arr'', Some True)"
proof -
  have w: "concat (map (wanted_keys req0) (map fst (data_items_def self0)))
     = [''mXnf()'', ''mFn0(ft,,text)'', ''zG00(node_sort)'', ''zG00(node_sort_inv)'']"
    by (simp add: self0_def names_init_def catalog_eq wanted_keys_def req0_def decomp_def
        py_split1_def components_of_def py_str_items_def comp_key_def DCOMP_SEP_def)
  have k: "''zG00(node_sort)'' \<in> set (map fst (data_items_def self0))"
    by (simp add: self0_def names_init_def catalog_eq)
  have m: "map_of items1 ''zG00(node_sort)''
      = Some (Some True, Some ''/data/z'', Some ''G00(node_sort)'', Some ''arr'', Some True)"
    by (simp add: items1_def)
  have e: "req_data_items (self0\<lparr>old_data_items := req_data_items self0, req_data_items := items1\<rparr>)
      = items1"
    by simp
  note t = request_files_resolution [of self0 req0]
  have "\<forall>dkey\<in>set (map fst (data_items_def self0)). resolvable self0 req0 dkey"
    by (rule iffD1 [OF conjunct1 [OF t]]) (intro exI, rule request_files_example)
  then have r: "resolvable self0 req0 ''zG00(node_sort)''"
    using k by (rule bspec)
  note s = conjunct2 [OF t, rule_format, OF request_files_example, unfolded e]
  have o: "map fst items1
      = [''mXnf()'', ''mFn0(ft,,text)'', ''zG00(node_sort)'', ''zG00(node_sort_inv)'']"
    using s [THEN conjunct2, THEN conjunct1] unfolding w by simp
  have z: "dinfo self0 ''zG00(node_sort)''
      = Inr (Some True, Some ''/data/z'', Some ''G00(node_sort)'', Some ''arr'', Some True)"
    using s [THEN conjunct2, THEN conjunct2, THEN conjunct1] m by blast
  from w o r z show ?thesis by simp
qed

section \<open>Properties of the validator\<close>
























text \<open>
  Claim C5: for every load specification the validator returns silently or raises one
  error that lists every violation. The code does so on the example of the
  specification (an unknown key, a non-boolean under \<^verbatim>\<open>primary\<close>, a non-list under
  \<^verbatim>\<open>features\<close>: the last conjunct), but not on every load specification. The branches
  for \<^verbatim>\<open>xmlids\<close> and \<^verbatim>\<open>features\<close> iterate the section and the branch for
  \<^verbatim>\<open>primary\<close> hashes the value with no test of its type, where the branch for
  \<^verbatim>\<open>prepare\<close> and the innermost test of \<^verbatim>\<open>features\<close> compare \<^verbatim>\<open>type(val)\<close> and
  record a violation. A section of the wrong shape so raises TypeError, and the
  unknown key \<^verbatim>\<open>bogus\<close> recorded before it is reported nowhere.
\<close>

theorem check_load_dict_type_error:
  "check_load_dict (PDict [(''bogus'', PBool True), (''xmlids'', PBool True)]) = Inl TypeError
 \<and> check_load_dict (PDict [(''bogus'', PBool True), (''primary'', PList [])]) = Inl TypeError
 \<and> check_load_dict (PDict [(''bogus'', PBool True),
        (''features'', PDict [(''ns'', PInt 5)])]) = Inl TypeError
 \<and> check_load_dict (PDict [(''bogus'', PInt 1), (''primary'', PStr ''yes''),
        (''features'', PDict [(''ns'', PDict [(''node'', PBool True)])])])
     = Inl (FabricError [TopLevelKey (PStr ''bogus''), PrimaryValue (PStr ''yes''),
                         FeaturesValue (PStr ''ns'') (PStr ''node'') ''bool''])"
  by (simp add: check_load_dict_def in_strs_def load_dict_keys_def load_dict_subkeys_def
      dict_get_def in_kind_types_def)




end
